theory Spec2Isabelle
  imports Main "HOL-Library.Sublist"
begin

section \<open>Rate limiter (packages memorylimiter and redislimiter)\<close>

text \<open>
  Both packages declare the same struct \<open>Limit{Limit int; Window time.Duration}\<close>.
  A \<open>time.Duration\<close> is a count of nanoseconds, an \<open>int64\<close>.  Go integers are
  modelled as \<open>int\<close>, and \<open>int64\<close> is the value that 64-bit two's complement
  arithmetic gives.  The one sum of the limiter that can leave the 64-bit range
  is \<open>lim.Window + time.Second\<close>, and it is wrapped; a clock reading and
  \<open>Window.Milliseconds()\<close> are quotients of an \<open>int64\<close> by \<open>10^6\<close>, so their
  difference cannot wrap.  An \<open>error\<close> is its message; a Go result
  \<open>(bool, error)\<close> is a pair whose second component is \<open>None\<close> for \<open>nil\<close>.
\<close>

type_synonym error = string

definition int64 :: "int \<Rightarrow> int" where
  "int64 x = (x + 2 ^ 63) mod 2 ^ 64 - 2 ^ 63"

record Limit =
  Limit :: int
  Window :: int

text \<open>Go's integer division truncates toward zero.\<close>

definition quo :: "int \<Rightarrow> int \<Rightarrow> int" where
  "quo a b = sgn a * sgn b * (\<bar>a\<bar> div \<bar>b\<bar>)"

text \<open>\<open>Duration.Milliseconds\<close>: \<open>int64(d) / 1e6\<close>.\<close>

definition Milliseconds :: "int \<Rightarrow> int" where
  "Milliseconds d = quo d 1000000"

definition Minute :: int where
  "Minute = 60000000000"

definition Second :: int where
  "Second = 1000000000"

text \<open>
  \<open>get\<close> is the same function in both packages: the bucket's own limit, else the
  limit named \<open>default\<close>, else 100 per minute.
\<close>

definition get :: "(string \<rightharpoonup> Limit) \<Rightarrow> string \<Rightarrow> Limit \<times> bool" where
  "get limits bucket =
     (case limits bucket of
        Some v \<Rightarrow> (v, True)
      | None \<Rightarrow>
          (case limits ''default'' of
             Some v \<Rightarrow> (v, True)
           | None \<Rightarrow> (\<lparr>Limit = 100, Window = Minute\<rparr>, False)))"

text \<open>\<open>fmt.Sprintf("%s:%s", key, bucket)\<close>\<close>

definition limitKey :: "string \<Rightarrow> string \<Rightarrow> string" where
  "limitKey bucket key = key @ '':'' @ bucket"

subsection \<open>The in-memory limiter\<close>

text \<open>
  \<open>buckets\<close> maps a limit key to the \<open>timestamps\<close> slice of its \<open>bucketState\<close>
  (request times in Unix ms, newest last).  The mutex only serialises calls and
  is not part of the state.
\<close>

record Limiter =
  limits :: "string \<rightharpoonup> Limit"
  buckets :: "string \<rightharpoonup> int list"

definition New :: "(string \<rightharpoonup> Limit) \<Rightarrow> Limiter" where
  "New lims = \<lparr>limits = lims, buckets = Map.empty\<rparr>"

text \<open>
  The pruning loop
  \<open>for pruneIdx < len(ts) && ts[pruneIdx] < windowStart { pruneIdx++ }\<close>.
\<close>

function pruneLoop :: "int list \<Rightarrow> int \<Rightarrow> nat \<Rightarrow> nat" where
  "pruneLoop ts windowStart pruneIdx =
     (if pruneIdx < length ts \<and> ts ! pruneIdx < windowStart
      then pruneLoop ts windowStart (Suc pruneIdx)
      else pruneIdx)"
  by pat_completeness auto
termination
  by (relation "measure (\<lambda>(ts, w, i). length ts - i)") auto

declare pruneLoop.simps [simp del]

text \<open>
  \<open>AllowNamed\<close> on a \<open>*Limiter\<close>: \<open>None\<close> is the nil receiver.  \<open>nowMs\<close> is the
  value of \<open>time.Now().UnixNano() / 1e6\<close> read by the call.  The result is the
  Go result together with the limiter after the call.
\<close>

definition AllowNamed ::
  "Limiter option \<Rightarrow> int \<Rightarrow> string \<Rightarrow> string \<Rightarrow> (bool \<times> error option) \<times> Limiter option" where
  "AllowNamed l nowMs bucket key =
     (case l of
        None \<Rightarrow> ((True, None), None)
      | Some L \<Rightarrow>
          if bucket = [] \<or> key = [] then ((False, Some ''bucket and key required''), Some L)
          else
            let lim = fst (get (limits L) bucket);
                windowStart = nowMs - Milliseconds (Window lim);
                k = limitKey bucket key;
                bs = (case buckets L k of None \<Rightarrow> (buckets L)(k \<mapsto> []) | Some b \<Rightarrow> buckets L);
                ts0 = (case bs k of None \<Rightarrow> [] | Some b \<Rightarrow> b);
                pruneIdx = pruneLoop ts0 windowStart 0;
                ts = (if pruneIdx > 0 then drop pruneIdx ts0 else ts0)
            in if int (length ts) \<ge> Limit lim
               then
                 let bs1 = bs(k \<mapsto> ts);
                     bs2 = (if length ts = 0 then bs1(k := None) else bs1)
                 in ((False, None), Some (L\<lparr>buckets := bs2\<rparr>))
               else
                 let ts' = ts @ [nowMs];
                     bs1 = bs(k \<mapsto> ts');
                     bs2 = (if length ts' = 0 then bs1(k := None) else bs1)
                 in ((True, None), Some (L\<lparr>buckets := bs2\<rparr>)))"

subsection \<open>The Redis-backed limiter\<close>

text \<open>
  The Redis server is modelled by the part of its keyspace the limiter uses: a
  key holds a sorted set and an optional expiry deadline (Unix ms).  Members are
  the decimal renderings of millisecond timestamps and the score of a member is
  the same number, so a sorted set is a strictly increasing list of integers
  (the conversion to \<open>float64\<close> is exact below \<open>2^53\<close>).  A key whose set
  becomes empty is removed, as Redis does.  The server's clock is taken to agree
  with the caller's.
\<close>

record zkey =
  members :: "int list"
  expireAt :: "int option"

type_synonym redis = "string \<rightharpoonup> zkey"

text \<open>A key past its deadline is gone.\<close>

definition live :: "redis \<Rightarrow> int \<Rightarrow> string \<Rightarrow> zkey option" where
  "live db now k =
     (case db k of
        None \<Rightarrow> None
      | Some z \<Rightarrow> (case expireAt z of
                     None \<Rightarrow> Some z
                   | Some d \<Rightarrow> if d \<le> now then None else Some z))"

definition store :: "redis \<Rightarrow> string \<Rightarrow> int list \<Rightarrow> int option \<Rightarrow> redis" where
  "store db k ms e = (if ms = [] then db(k := None) else db(k \<mapsto> \<lparr>members = ms, expireAt = e\<rparr>))"

text \<open>\<open>ZADD key score member\<close> with \<open>score = member = now\<close>: an existing member is kept once.\<close>

definition ZAdd :: "redis \<Rightarrow> int \<Rightarrow> string \<Rightarrow> int \<Rightarrow> redis" where
  "ZAdd db now k m =
     (case live db now k of
        None \<Rightarrow> store db k [m] None
      | Some z \<Rightarrow> store db k (insort_insert m (members z)) (expireAt z))"

text \<open>\<open>ZREMRANGEBYSCORE key lo hi\<close> removes the members with \<open>lo \<le> score \<le> hi\<close>.\<close>

definition ZRemRangeByScore :: "redis \<Rightarrow> int \<Rightarrow> string \<Rightarrow> int \<Rightarrow> int \<Rightarrow> redis" where
  "ZRemRangeByScore db now k lo hi =
     (case live db now k of
        None \<Rightarrow> db(k := None)
      | Some z \<Rightarrow> store db k (filter (\<lambda>t. \<not> (lo \<le> t \<and> t \<le> hi)) (members z)) (expireAt z))"

definition ZCard :: "redis \<Rightarrow> int \<Rightarrow> string \<Rightarrow> int" where
  "ZCard db now k = (case live db now k of None \<Rightarrow> 0 | Some z \<Rightarrow> int (length (members z)))"

text \<open>
  \<open>Expire(key, d)\<close>: go-redis sends \<open>EXPIRE key formatSec(d)\<close>, the duration in
  whole seconds (a positive duration below one second is sent as 1); a
  non-positive time to live deletes the key; a missing key is left missing.
\<close>

definition formatSec :: "int \<Rightarrow> int" where
  "formatSec dur = (if 0 < dur \<and> dur < Second then 1 else quo dur Second)"

definition Expire :: "redis \<Rightarrow> int \<Rightarrow> string \<Rightarrow> int \<Rightarrow> redis" where
  "Expire db now k d =
     (case live db now k of
        None \<Rightarrow> db(k := None)
      | Some z \<Rightarrow> if formatSec d \<le> 0 then db(k := None)
                  else store db k (members z) (Some (now + 1000 * formatSec d)))"

definition ZRem :: "redis \<Rightarrow> int \<Rightarrow> string \<Rightarrow> int \<Rightarrow> redis" where
  "ZRem db now k m =
     (case live db now k of
        None \<Rightarrow> db(k := None)
      | Some z \<Rightarrow> store db k (removeAll m (members z)) (expireAt z))"

text \<open>
  The limiter holds a client pointer (\<open>None\<close> is nil) and the limit table; the
  context is not modelled.
\<close>

datatype Client = Client

record RLimiter =
  rdb :: "Client option"
  rlimits :: "string \<rightharpoonup> Limit"

definition RNew :: "Client option \<Rightarrow> (string \<rightharpoonup> Limit) \<Rightarrow> RLimiter" where
  "RNew c lims = \<lparr>rdb = c, rlimits = lims\<rparr>"

text \<open>
  \<open>AllowNamed\<close> of the Redis limiter.  \<open>txerr\<close> is the error, if any, with which
  the \<open>MULTI/EXEC\<close> pipeline fails; a failed transaction is taken not to have
  been applied.  The result is the Go result and the keyspace after the call.
\<close>

definition RAllowNamed ::
  "RLimiter option \<Rightarrow> redis \<Rightarrow> error option \<Rightarrow> int \<Rightarrow> string \<Rightarrow> string \<Rightarrow> (bool \<times> error option) \<times> redis" where
  "RAllowNamed l db txerr now bucket key =
     (if l = None \<or> rdb (the l) = None then ((True, None), db)
      else if bucket = [] \<or> key = [] then ((False, Some ''bucket and key required''), db)
      else
        let lim = fst (get (rlimits (the l)) bucket);
            start = now - Milliseconds (Window lim);
            k = limitKey bucket key
        in case txerr of
             Some err \<Rightarrow> ((False, Some err), db)
           | None \<Rightarrow>
               let db1 = ZAdd db now k now;
                   db2 = ZRemRangeByScore db1 now k 0 start;
                   count = ZCard db2 now k;
                   db3 = Expire db2 now k (int64 (Window lim + Second))
               in if count > Limit lim
                  then ((False, None), ZRem db3 now k now)
                  else ((True, None), db3))"

subsection \<open>Notions used to state the limiter's properties\<close>

text \<open>
  The timestamps held for a limit key (none when the key is absent), and the
  window length in milliseconds and the ceiling that \<open>get\<close> yields for a bucket.
\<close>

definition entry :: "Limiter \<Rightarrow> string \<Rightarrow> int list" where
  "entry L k = (case buckets L k of None \<Rightarrow> [] | Some b \<Rightarrow> b)"

definition windowMs :: "(string \<rightharpoonup> Limit) \<Rightarrow> string \<Rightarrow> int" where
  "windowMs lims bucket = Milliseconds (Window (fst (get lims bucket)))"

definition limitOf :: "(string \<rightharpoonup> Limit) \<Rightarrow> string \<Rightarrow> int" where
  "limitOf lims bucket = Limit (fst (get lims bucket))"

text \<open>The members of a sorted set as a command issued at \<open>now\<close> sees them.\<close>

definition zmembers :: "redis \<Rightarrow> int \<Rightarrow> string \<Rightarrow> int list" where
  "zmembers db now k = (case live db now k of None \<Rightarrow> [] | Some z \<Rightarrow> members z)"

text \<open>
  The data invariant of the in-memory limiter at clock reading \<open>T\<close>: no entry
  is empty, every entry is in time order (newest last), and no timestamp lies
  after \<open>T\<close>.
\<close>

definition bucketsInv :: "Limiter \<Rightarrow> int \<Rightarrow> bool" where
  "bucketsInv L T \<longleftrightarrow>
     (\<forall>k ts. buckets L k = Some ts \<longrightarrow> ts \<noteq> [] \<and> sorted ts \<and> (\<forall>t\<in>set ts. t \<le> T))"

subsection \<open>Call histories\<close>

text \<open>
  A call is \<open>(bucket, key, nowMs)\<close>.  \<open>runMem\<close> and \<open>runRedis\<close> feed a history
  to one limiter, threading its state, and collect the results; the Redis
  transactions all succeed.
\<close>

type_synonym call = "string \<times> string \<times> int"

fun runMem :: "Limiter option \<Rightarrow> call list \<Rightarrow> (bool \<times> error option) list" where
  "runMem l [] = []"
| "runMem l ((bucket, key, now) # cs) =
     (let (r, l') = AllowNamed l now bucket key in r # runMem l' cs)"

fun runRedis :: "RLimiter option \<Rightarrow> redis \<Rightarrow> call list \<Rightarrow> (bool \<times> error option) list" where
  "runRedis l db [] = []"
| "runRedis l db ((bucket, key, now) # cs) =
     (let (r, db') = RAllowNamed l db None now bucket key in r # runRedis l db' cs)"






section \<open>Refresh sessions (table \<open>profiles.refresh_sessions\<close>)\<close>

text \<open>
  A row of \<open>profiles.refresh_sessions\<close> as the migration declares it.  A uuid is
  a number, a \<open>bytea\<close> a byte string, a \<open>timestamptz\<close> a count of milliseconds;
  a nullable column is an option.  The table is the list of its rows.
\<close>

type_synonym uuid = nat
type_synonym bytea = string

record refresh_session =
  id' :: uuid
  user_id :: uuid
  issuer :: string
  family_id :: uuid
  current_token_hash :: bytea
  previous_token_hash :: "bytea option"
  created_at :: int
  last_used_at :: int
  expires_at :: "int option"
  revoked_at :: "int option"
  user_agent :: "string option"
  ip_addr :: "string option"

text \<open>
  The two partial unique indexes \<open>refresh_sessions_current_hash_active\<close> and
  \<open>refresh_sessions_prev_hash_active\<close>, and the primary key.
\<close>

definition indexes_hold :: "refresh_session list \<Rightarrow> bool" where
  "indexes_hold tbl \<longleftrightarrow>
     distinct (map id' tbl) \<and>
     distinct (map current_token_hash (filter (\<lambda>r. revoked_at r = None) tbl)) \<and>
     distinct (map previous_token_hash
                 (filter (\<lambda>r. revoked_at r = None \<and> previous_token_hash r \<noteq> None) tbl))"

text \<open>
  Modelled from the spec: the \<open>rotate\<close> operation of the Refresh Session Manager
  (section 4.2), whose code is not among the repository's files.  The session
  is located by the fingerprint of the presented token among the non-revoked
  rows.  A match on the current slot shifts current to previous and installs a
  newly generated fingerprint; a match on the previous slot is honoured once
  without advancing the current fingerprint; a match on neither slot revokes
  every session of the family and returns the distinct reuse error.  The table
  has no column that records a consumed previous fingerprint, so honouring it
  empties the previous slot: a second presentation matches neither slot and is
  reuse, as sections 4.2 and 8 require.  The spec does not say how the
  family of an unmatched token is found: the presented token is taken to name
  its family besides carrying its fingerprint.  \<open>now\<close> is the time of the call
  and \<open>fresh\<close> the fingerprint generated for the new refresh token.
\<close>

datatype rotate_error = ReuseDetected

datatype grant = Advanced bytea | Retried

record presented =
  family :: uuid
  fingerprint :: bytea

definition revoke_row :: "int \<Rightarrow> uuid \<Rightarrow> refresh_session \<Rightarrow> refresh_session" where
  "revoke_row now f r =
     (if family_id r = f \<and> revoked_at r = None then r\<lparr>revoked_at := Some now\<rparr> else r)"

definition revoke_family :: "int \<Rightarrow> uuid \<Rightarrow> refresh_session list \<Rightarrow> refresh_session list" where
  "revoke_family now f tbl = map (revoke_row now f) tbl"

definition rotate ::
  "int \<Rightarrow> bytea \<Rightarrow> presented \<Rightarrow> refresh_session list \<Rightarrow> (rotate_error + grant) \<times> refresh_session list" where
  "rotate now fresh tok tbl =
     (case find (\<lambda>r. revoked_at r = None \<and> current_token_hash r = fingerprint tok) tbl of
        Some s \<Rightarrow>
          (Inr (Advanced fresh),
           map (\<lambda>r. if id' r = id' s
                     then r\<lparr>previous_token_hash := Some (current_token_hash r),
                            current_token_hash := fresh, last_used_at := now\<rparr>
                     else r) tbl)
      | None \<Rightarrow>
          (case find (\<lambda>r. revoked_at r = None \<and> previous_token_hash r = Some (fingerprint tok)) tbl of
             Some s \<Rightarrow>
               (Inr Retried,
                map (\<lambda>r. if id' r = id' s then r\<lparr>previous_token_hash := None\<rparr> else r) tbl)
           | None \<Rightarrow> (Inl ReuseDetected, revoke_family now (family tok) tbl)))"

text \<open>A non-revoked row holds a fingerprint when it is in one of its two slots.\<close>

definition tracked :: "refresh_session list \<Rightarrow> bytea \<Rightarrow> bool" where
  "tracked tbl F \<longleftrightarrow>
     (\<exists>r\<in>set tbl. revoked_at r = None \<and> (current_token_hash r = F \<or> previous_token_hash r = Some F))"

text \<open>
  Session \<open>s\<close> is the only non-revoked row of the table that holds any of the
  fingerprints \<open>Fs\<close>: the situation the unique indexes and the freshness of
  generated fingerprints give for the tokens of one session.
\<close>

definition sole_holder :: "bytea set \<Rightarrow> refresh_session list \<Rightarrow> refresh_session \<Rightarrow> bool" where
  "sole_holder Fs tbl s \<longleftrightarrow>
     s \<in> set tbl \<and> revoked_at s = None \<and> distinct (map id' tbl) \<and>
     (\<forall>r\<in>set tbl. id' r \<noteq> id' s \<longrightarrow> revoked_at r = None \<longrightarrow>
        current_token_hash r \<notin> Fs \<and> (\<forall>F\<in>Fs. previous_token_hash r \<noteq> Some F))"

definition advance :: "int \<Rightarrow> bytea \<Rightarrow> refresh_session \<Rightarrow> refresh_session" where
  "advance now fresh r =
     r\<lparr>previous_token_hash := Some (current_token_hash r), current_token_hash := fresh,
       last_used_at := now\<rparr>"

text \<open>Rows for a worked example: two sessions of family 7 and one of family 9.\<close>

definition row :: "uuid \<Rightarrow> uuid \<Rightarrow> bytea \<Rightarrow> refresh_session" where
  "row i f h =
     \<lparr>id' = i, user_id = 1, issuer = ''https://auth.example'', family_id = f,
      current_token_hash = h, previous_token_hash = None, created_at = 0, last_used_at = 0,
      expires_at = None, revoked_at = None, user_agent = None, ip_addr = None\<rparr>"

definition exampleTable :: "refresh_session list" where
  "exampleTable = [row 1 7 ''F0'', row 2 7 ''G0'', row 3 9 ''H0'']"

section \<open>OIDC relying party (package oidckit)\<close>

subsection \<open>Discovery\<close>

text \<open>\<open>strings.TrimRight(s, "/")\<close>: the trailing slashes are removed.\<close>

definition TrimRight :: "string \<Rightarrow> string \<Rightarrow> string" where
  "TrimRight s cutset = rev (dropWhile (\<lambda>c. c \<in> set cutset) (rev s))"

record discoveryDoc =
  Issuer :: string
  AuthorizationEndpoint :: string
  TokenEndpoint :: string
  JWKSURI :: string

text \<open>
  The network as discovery sees it.  Building the request can fail, the
  transport can fail, or a response arrives with a status code, a status line
  and a body; the body is given by what \<open>json.Decode\<close> makes of it.
\<close>

datatype http_result =
    RequestError error
  | TransportError error
  | Response int string "error + discoveryDoc"

definition discoverOIDC :: "(string \<Rightarrow> http_result) \<Rightarrow> string \<Rightarrow> error + discoveryDoc" where
  "discoverOIDC httpGet issuer0 =
     (let discoveryURL = TrimRight issuer0 ''/'' @ ''/.well-known/openid-configuration''
      in case httpGet discoveryURL of
           RequestError err \<Rightarrow> Inl err
         | TransportError err \<Rightarrow> Inl err
         | Response StatusCode Status body \<Rightarrow>
             if StatusCode < 200 \<or> StatusCode \<ge> 300
             then Inl (''oidc: discovery failed: '' @ Status)
             else
               (case body of
                  Inl err \<Rightarrow> Inl err
                | Inr doc \<Rightarrow>
                    let discoveredIssuer = TrimRight (Issuer doc) ''/''
                    in if discoveredIssuer \<noteq> [] \<and> discoveredIssuer \<noteq> issuer0
                       then Inl (''oidc: issuer mismatch: '' @ Issuer doc)
                       else if AuthorizationEndpoint doc = [] \<or> TokenEndpoint doc = [] \<or> JWKSURI doc = []
                       then Inl ''oidc: discovery missing endpoints''
                       else Inr doc))"

text \<open>\<open>oauth2.Config\<close> with its \<open>Endpoint\<close> flattened, and the relying party.\<close>

record Config =
  ClientID :: string
  ClientSecret :: string
  RedirectURL :: string
  Scopes :: "string list"
  AuthURL :: string
  TokenURL :: string

record RelyingParty =
  issuer :: string
  clientID :: string
  jwksURL :: string
  oauthConfig :: Config

definition NewRelyingPartyOIDC ::
  "(string \<Rightarrow> http_result) \<Rightarrow> string \<Rightarrow> string \<Rightarrow> string \<Rightarrow> string \<Rightarrow> string list
     \<Rightarrow> error + RelyingParty" where
  "NewRelyingPartyOIDC httpGet issuer0 clientID0 clientSecret redirectURI scopes =
     (let trimmedIssuer = TrimRight issuer0 ''/''
      in if trimmedIssuer = [] then Inl ''oidc: issuer is empty''
         else
           (case discoverOIDC httpGet trimmedIssuer of
              Inl err \<Rightarrow> Inl err
            | Inr doc \<Rightarrow>
                let effectiveIssuer = (if Issuer doc = [] then issuer0 else Issuer doc)
                in Inr \<lparr>issuer = effectiveIssuer,
                        clientID = clientID0,
                        jwksURL = JWKSURI doc,
                        oauthConfig = \<lparr>ClientID = clientID0, ClientSecret = clientSecret,
                                        RedirectURL = redirectURI, Scopes = scopes,
                                        AuthURL = AuthorizationEndpoint doc,
                                        TokenURL = TokenEndpoint doc\<rparr>\<rparr>))"

subsection \<open>Code exchange and ID token verification\<close>

text \<open>
  Values of Go's \<open>interface{}\<close> as far as the code inspects them: a string, a
  bool, or something else.
\<close>

datatype jvalue = JString string | JBool bool | JOther

text \<open>
  \<open>strings.EqualFold\<close> against an ASCII literal: letters compare without case,
  and the two non-ASCII runes whose simple case folding reaches an ASCII letter
  (U+017F for \<open>s\<close>, U+212A for \<open>k\<close>, here in UTF-8) count as that letter.
\<close>

fun foldToASCII :: "string \<Rightarrow> string" where
  "foldToASCII [] = []"
| "foldToASCII (c # cs) =
     (if c = CHR 0xC5 \<and> take 1 cs = [CHR 0xBF] then CHR ''s'' # foldToASCII (drop 1 cs)
      else if c = CHR 0xE2 \<and> take 2 cs = [CHR 0x84, CHR 0xAA] then CHR ''k'' # foldToASCII (drop 2 cs)
      else if 65 \<le> (of_char c :: nat) \<and> (of_char c :: nat) \<le> 90
           then char_of (of_char c + 32 :: nat) # foldToASCII cs
      else c # foldToASCII cs)"

definition EqualFold :: "string \<Rightarrow> string \<Rightarrow> bool" where
  "EqualFold s lit \<longleftrightarrow> foldToASCII s = foldToASCII lit"

text \<open>
  A parsed JWT as the code reads it: the registered claims the library checks,
  the subject, and \<open>Get\<close> for the other claims.  A key set is a list of key
  identifiers.  An \<open>oauth2.Token\<close> is read only through \<open>Extra\<close>.
\<close>

record Token =
  Iss :: string
  Aud :: "string list"
  Sub :: string
  Get :: "string \<Rightarrow> jvalue option"

datatype Set = KeySet "string list"

record oauth2Token =
  Extra :: "string \<Rightarrow> jvalue option"

text \<open>
  What lies outside the repository: the provider's token endpoint
  (\<open>oauth2.Config.Exchange\<close>, given the configuration, the code and the extra
  parameters), the key-set download (\<open>jwk.Fetch\<close>), and the three judgements
  inside \<open>jwt.ParseString\<close> of the jwx library: decoding the compact
  serialisation, whether a key of the set verifies the signature, and whether
  the time claims are valid now.
\<close>

record world =
  Exchange :: "Config \<Rightarrow> string \<Rightarrow> (string \<times> string) list \<Rightarrow> error + oauth2Token"
  Fetch :: "string \<Rightarrow> error + Set"
  decode :: "string \<Rightarrow> Token option"
  verifies :: "Set \<Rightarrow> string \<Rightarrow> bool"
  timely :: "Token \<Rightarrow> bool"

text \<open>
  \<open>jwt.ParseString(raw, WithKeySet(keys), WithValidate(true), WithIssuer(iss),
  WithAudience(aud))\<close> by the library's documented contract: the signature must
  verify against the key set, and validation requires valid time claims, the
  given issuer, and the given audience among the token's audiences.
\<close>

definition ParseString :: "world \<Rightarrow> string \<Rightarrow> Set \<Rightarrow> string \<Rightarrow> string \<Rightarrow> error + Token" where
  "ParseString w raw keys iss aud =
     (if \<not> verifies w keys raw then Inl ''could not verify message using any of the signatures or keys''
      else case decode w raw of
             None \<Rightarrow> Inl ''failed to parse token''
           | Some t \<Rightarrow>
               if \<not> timely w t then Inl ''token validation failed''
               else if Iss t \<noteq> iss then Inl ''\"iss\" not satisfied''
               else if aud \<notin> set (Aud t) then Inl ''\"aud\" not satisfied''
               else Inr t)"

record IDTokenClaims =
  Subject :: string
  Email :: string
  EmailVerified :: "bool option"
  Name :: string
  PreferredUsername :: string

definition GetSubject :: "IDTokenClaims \<Rightarrow> string" where
  "GetSubject c = IDTokenClaims.Subject c"

text \<open>
  The verifier; \<open>keySet\<close> is an interface value and \<open>nonce\<close> a function value,
  either of which may be nil.  The context argument carries nothing the code
  reads and is the unit value.
\<close>

record IDTokenVerifier =
  vissuer :: string
  vclientID :: string
  keySet :: "Set option"
  nonce :: "(unit \<Rightarrow> string) option"

definition WithNonce :: "(unit \<Rightarrow> string) \<Rightarrow> IDTokenVerifier \<Rightarrow> IDTokenVerifier" where
  "WithNonce fn v = v\<lparr>nonce := Some fn\<rparr>"

definition NewIDTokenVerifier ::
  "string \<Rightarrow> string \<Rightarrow> Set option \<Rightarrow> (IDTokenVerifier \<Rightarrow> IDTokenVerifier) list \<Rightarrow> IDTokenVerifier" where
  "NewIDTokenVerifier iss cid ks opts =
     fold (\<lambda>opt v. opt v) opts \<lparr>vissuer = iss, vclientID = cid, keySet = ks, nonce = None\<rparr>"

text \<open>The claim extraction at the end of \<open>VerifyIDToken\<close>.\<close>

definition extractClaims :: "Token \<Rightarrow> IDTokenClaims" where
  "extractClaims token =
     \<lparr>IDTokenClaims.Subject = Sub token,
      Email = (case Get token ''email'' of Some (JString email) \<Rightarrow> email | _ \<Rightarrow> []),
      EmailVerified =
        (case Get token ''email_verified'' of
           Some (JBool v) \<Rightarrow> Some v
         | Some (JString v) \<Rightarrow>
             if EqualFold v ''true'' then Some True
             else if EqualFold v ''false'' then Some False
             else None
         | _ \<Rightarrow> None),
      Name = (case Get token ''name'' of Some (JString name) \<Rightarrow> name | _ \<Rightarrow> []),
      PreferredUsername =
        (case Get token ''preferred_username'' of Some (JString preferred) \<Rightarrow> preferred | _ \<Rightarrow> [])\<rparr>"

text \<open>\<open>VerifyIDToken\<close>; the verifier pointer may be nil.\<close>

definition VerifyIDToken :: "world \<Rightarrow> string \<Rightarrow> IDTokenVerifier option \<Rightarrow> error + IDTokenClaims option" where
  "VerifyIDToken w rawToken vo =
     (case vo of
        None \<Rightarrow> Inl ''oidc: missing verifier''
      | Some v \<Rightarrow>
          (case keySet v of
             None \<Rightarrow> Inl ''oidc: missing key set''
           | Some keys \<Rightarrow>
               (case ParseString w rawToken keys (vissuer v) (vclientID v) of
                  Inl err \<Rightarrow> Inl err
                | Inr token \<Rightarrow>
                    let nonceError =
                      (case nonce v of
                         None \<Rightarrow> None
                       | Some fn \<Rightarrow>
                           let expected = fn ()
                           in if expected \<noteq> []
                              then (case Get token ''nonce'' of
                                      None \<Rightarrow> Some ''oidc: missing nonce''
                                    | Some (JString n) \<Rightarrow>
                                        if n \<noteq> expected then Some ''oidc: nonce mismatch'' else None
                                    | Some _ \<Rightarrow> Some ''oidc: nonce mismatch'')
                              else None)
                    in case nonceError of
                         Some err \<Rightarrow> Inl err
                       | None \<Rightarrow> Inr (Some (extractClaims token)))))"

record Claims =
  Subject :: string
  Email :: "string option"
  EmailVerified :: "bool option"
  Name :: "string option"
  PreferredUsername :: "string option"
  RawIDToken :: string

definition strptr :: "string \<Rightarrow> string option" where
  "strptr s = (if s = [] then None else Some s)"

definition boolptr :: "bool \<Rightarrow> bool option" where
  "boolptr b = Some b"

text \<open>\<open>RelyingParty.KeySet\<close>\<close>

definition KeySetOf :: "world \<Rightarrow> RelyingParty \<Rightarrow> error + Set" where
  "KeySetOf w rp = (if jwksURL rp = [] then Inl ''oidc: missing jwks_uri'' else Fetch w (jwksURL rp))"

text \<open>\<open>DefaultExchanger\<close> on a non-nil relying party.\<close>

definition DefaultExchanger ::
  "world \<Rightarrow> RelyingParty \<Rightarrow> string \<Rightarrow> string \<Rightarrow> string \<Rightarrow> string \<Rightarrow> error + Claims" where
  "DefaultExchanger w rpClient provider code verifier nonce0 =
     (let opts = (if provider \<noteq> ''apple'' then [(''code_verifier'', verifier)] else [])
      in case Exchange w (oauthConfig rpClient) code opts of
           Inl err \<Rightarrow> Inl (''token exchange failed for '' @ provider @ '': '' @ err)
         | Inr oauth2Token \<Rightarrow>
             (case Extra oauth2Token ''id_token'' of
                Some (JString rawIDToken) \<Rightarrow>
                  if rawIDToken = [] then Inl ''no id_token in response''
                  else
                    (case KeySetOf w rpClient of
                       Inl err \<Rightarrow> Inl (''jwks fetch failed for '' @ provider @ '': '' @ err)
                     | Inr keys \<Rightarrow>
                         let customVerifier =
                               NewIDTokenVerifier (issuer rpClient) (clientID rpClient) (Some keys)
                                 [WithNonce (\<lambda>_. nonce0)]
                         in case VerifyIDToken w rawIDToken (Some customVerifier) of
                              Inl err \<Rightarrow>
                                Inl (''id_token verification with nonce failed for '' @ provider @ '': '' @ err)
                            | Inr None \<Rightarrow> Inl ''missing id_token claims''
                            | Inr (Some idt) \<Rightarrow>
                                Inr \<lparr>Claims.Subject = GetSubject idt,
                                     Email = strptr (IDTokenClaims.Email idt),
                                     EmailVerified =
                                       boolptr (case IDTokenClaims.EmailVerified idt of
                                                  None \<Rightarrow> False | Some ev \<Rightarrow> ev),
                                     Name = strptr (IDTokenClaims.Name idt),
                                     PreferredUsername =
                                       (if IDTokenClaims.PreferredUsername idt \<noteq> []
                                        then Some (IDTokenClaims.PreferredUsername idt) else None),
                                     RawIDToken = rawIDToken\<rparr>)
              | _ \<Rightarrow> Inl ''no id_token in response''))"

text \<open>A provider, a relying party and a token for the examples below.\<close>

definition exampleToken :: Token where
  "exampleToken = \<lparr>Iss = ''https://idp.example'', Aud = [''client''], Sub = ''alice'',
                    Get = [''nonce'' \<mapsto> JString ''n-123'', ''email'' \<mapsto> JString ''a@idp.example'']\<rparr>"

definition exampleWorld :: world where
  "exampleWorld =
     \<lparr>Exchange = (\<lambda>cfg code opts. Inr \<lparr>Extra = [''id_token'' \<mapsto> JString ''header.payload.signature'']\<rparr>),
      Fetch = (\<lambda>url. Inr (KeySet [''key-1''])),
      decode = (\<lambda>raw. if raw = ''header.payload.signature'' then Some exampleToken else None),
      verifies = (\<lambda>keys raw. raw = ''header.payload.signature''),
      timely = (\<lambda>t. True)\<rparr>"

definition exampleRP :: RelyingParty where
  "exampleRP =
     \<lparr>issuer = ''https://idp.example'', clientID = ''client'',
      jwksURL = ''https://idp.example/keys'',
      oauthConfig = \<lparr>ClientID = ''client'', ClientSecret = ''secret'',
                      RedirectURL = ''https://app.example/cb'', Scopes = [''openid''],
                      AuthURL = ''https://idp.example/auth'',
                      TokenURL = ''https://idp.example/token''\<rparr>\<rparr>"

text \<open>A complete discovery document that reports the issuer \<open>iss\<close>.\<close>

definition goodDoc :: "string \<Rightarrow> discoveryDoc" where
  "goodDoc iss = \<lparr>Issuer = iss, AuthorizationEndpoint = ''https://idp.example/auth'',
                  TokenEndpoint = ''https://idp.example/token'',
                  JWKSURI = ''https://idp.example/keys''\<rparr>"

section \<open>Wallet sign-in messages (package siws)\<close>

subsection \<open>The functions of Go's strings package that the code calls\<close>

text \<open>
  A Go string is a byte string.  \<open>Split\<close> is \<open>strings.Split(s, "\n")\<close> and \<open>Join\<close>
  is \<open>strings.Join(lines, "\n")\<close>.
\<close>

fun Split :: "string \<Rightarrow> string list" where
  "Split [] = [[]]"
| "Split (c # cs) =
     (if c = CHR 0x0A then [] # Split cs
      else (case Split cs of l # ls \<Rightarrow> (c # l) # ls | [] \<Rightarrow> [[c]]))"

fun Join :: "string list \<Rightarrow> string" where
  "Join [] = []"
| "Join [l] = l"
| "Join (l # ls) = l @ [CHR 0x0A] @ Join ls"

definition HasPrefix :: "string \<Rightarrow> string \<Rightarrow> bool" where
  "HasPrefix s p \<longleftrightarrow> prefix p s"

definition TrimPrefix :: "string \<Rightarrow> string \<Rightarrow> string" where
  "TrimPrefix s p = (if HasPrefix s p then drop (length p) s else s)"

text \<open>
  \<open>strings.TrimSpace\<close> removes leading and trailing runes for which
  \<open>unicode.IsSpace\<close> holds.  On bytes: the UTF-8 encodings of those runes are
  stripped from the front and then from the back, one rune at a time.  Bytes
  that do not decode to such a rune (invalid UTF-8 included) stop the stripping.
\<close>

definition spaceRunes :: "string list" where
  "spaceRunes =
     [[CHR 0x09], [CHR 0x0A], [CHR 0x0B], [CHR 0x0C], [CHR 0x0D], [CHR 0x20],
      [CHR 0xC2, CHR 0x85], [CHR 0xC2, CHR 0xA0],
      [CHR 0xE1, CHR 0x9A, CHR 0x80],
      [CHR 0xE2, CHR 0x80, CHR 0x80], [CHR 0xE2, CHR 0x80, CHR 0x81],
      [CHR 0xE2, CHR 0x80, CHR 0x82], [CHR 0xE2, CHR 0x80, CHR 0x83],
      [CHR 0xE2, CHR 0x80, CHR 0x84], [CHR 0xE2, CHR 0x80, CHR 0x85],
      [CHR 0xE2, CHR 0x80, CHR 0x86], [CHR 0xE2, CHR 0x80, CHR 0x87],
      [CHR 0xE2, CHR 0x80, CHR 0x88], [CHR 0xE2, CHR 0x80, CHR 0x89],
      [CHR 0xE2, CHR 0x80, CHR 0x8A],
      [CHR 0xE2, CHR 0x80, CHR 0xA8], [CHR 0xE2, CHR 0x80, CHR 0xA9],
      [CHR 0xE2, CHR 0x80, CHR 0xAF], [CHR 0xE2, CHR 0x81, CHR 0x9F],
      [CHR 0xE3, CHR 0x80, CHR 0x80]]"

fun stripLeading :: "string list \<Rightarrow> string \<Rightarrow> string" where
  "stripLeading runes [] = []"
| "stripLeading runes (c # cs) =
     (case find (\<lambda>r. prefix r (c # cs)) runes of
        None \<Rightarrow> c # cs
      | Some r \<Rightarrow> stripLeading runes (drop (length r - 1) cs))"

definition TrimSpace :: "string \<Rightarrow> string" where
  "TrimSpace s = rev (stripLeading (map rev spaceRunes) (rev (stripLeading spaceRunes s)))"

subsection \<open>Building and parsing a message\<close>

text \<open>
  \<open>SignInInput\<close>: the struct's declaration is not among the files; its fields
  and their types are those that \<open>ConstructMessage\<close>, \<open>ParseMessage\<close> and the
  tests use.  A \<open>*string\<close> is an option; the \<open>Resources\<close> slice is a list, nil
  being the empty list.
\<close>

record SignInInput =
  Domain' :: string
  Address :: string
  Statement :: "string option"
  URI :: "string option"
  Version :: "string option"
  ChainID :: "string option"
  Nonce :: string
  IssuedAt :: string
  ExpirationTime :: "string option"
  NotBefore :: "string option"
  RequestID :: "string option"
  Resources :: "string list"

text \<open>\<open>if p != nil && *p != ""  { sb.WriteString(tag); sb.WriteString(*p) }\<close>\<close>

definition optional :: "string \<Rightarrow> string option \<Rightarrow> string" where
  "optional tag p = (case p of None \<Rightarrow> [] | Some v \<Rightarrow> if v \<noteq> [] then tag @ v else [])"

definition ConstructMessage :: "SignInInput \<Rightarrow> string" where
  "ConstructMessage input =
     Domain' input @ '' wants you to sign in with your Solana account:'' @ [CHR 0x0A] @
     Address input @
     optional [CHR 0x0A, CHR 0x0A] (Statement input) @
     [CHR 0x0A] @
     optional (CHR 0x0A # ''URI: '') (URI input) @
     optional (CHR 0x0A # ''Version: '') (Version input) @
     optional (CHR 0x0A # ''Chain ID: '') (ChainID input) @
     (CHR 0x0A # ''Nonce: '') @ Nonce input @
     (CHR 0x0A # ''Issued At: '') @ IssuedAt input @
     optional (CHR 0x0A # ''Expiration Time: '') (ExpirationTime input) @
     optional (CHR 0x0A # ''Not Before: '') (NotBefore input) @
     optional (CHR 0x0A # ''Request ID: '') (RequestID input) @
     (if length (Resources input) > 0
      then (CHR 0x0A # ''Resources:'') @ concat (map (\<lambda>r. (CHR 0x0A # ''- '') @ r) (Resources input))
      else [])"

text \<open>
  The header pattern \<open>^(.+) wants you to sign in with your Solana account:$\<close>:
  a line matches when it ends with the fixed text, something precedes it, and
  (the dot not matching a newline) no newline occurs before it; the group is
  what precedes the fixed text.
\<close>

definition headerSuffix :: string where
  "headerSuffix = '' wants you to sign in with your Solana account:''"

definition headerMatch :: "string \<Rightarrow> string option" where
  "headerMatch line =
     (if suffix headerSuffix line \<and> length headerSuffix < length line \<and>
         CHR 0x0A \<notin> set (take (length line - length headerSuffix) line)
      then Some (take (length line - length headerSuffix) line)
      else None)"

definition isFieldLine :: "string \<Rightarrow> bool" where
  "isFieldLine line \<longleftrightarrow>
     HasPrefix line ''URI:'' \<or> HasPrefix line ''Version:'' \<or> HasPrefix line ''Chain ID:'' \<or>
     HasPrefix line ''Nonce:'' \<or> HasPrefix line ''Issued At:''"

text \<open>The search for the first field line, from index \<open>i\<close> on; \<open>-1\<close> when there is none.\<close>

fun findFieldsStart :: "nat \<Rightarrow> string list \<Rightarrow> int" where
  "findFieldsStart i [] = -1"
| "findFieldsStart i (l # ls) =
     (if isFieldLine (TrimSpace l) then int i else findFieldsStart (Suc i) ls)"

text \<open>The statement loop: leading blank lines are skipped, later lines are appended.\<close>

fun collectStatement :: "string list \<Rightarrow> string list \<Rightarrow> string list" where
  "collectStatement statementLines [] = statementLines"
| "collectStatement statementLines (line # rest) =
     (if length statementLines = 0 \<and> TrimSpace line = [] then collectStatement statementLines rest
      else collectStatement (statementLines @ [line]) rest)"

record parseState =
  input :: SignInInput
  inResources :: bool
  resources :: "string list"

text \<open>One iteration of the field loop.\<close>

definition parseLine :: "string \<Rightarrow> parseState \<Rightarrow> parseState" where
  "parseLine line st =
     (if HasPrefix line ''- '' \<and> inResources st
      then st\<lparr>resources := resources st @ [TrimPrefix line ''- '']\<rparr>
      else if HasPrefix line ''Resources:'' then st\<lparr>inResources := True\<rparr>
      else
        let i = input st;
            i' = (if HasPrefix line ''URI: '' then i\<lparr>URI := Some (TrimPrefix line ''URI: '')\<rparr>
                  else if HasPrefix line ''Version: '' then i\<lparr>Version := Some (TrimPrefix line ''Version: '')\<rparr>
                  else if HasPrefix line ''Chain ID: '' then i\<lparr>ChainID := Some (TrimPrefix line ''Chain ID: '')\<rparr>
                  else if HasPrefix line ''Nonce: '' then i\<lparr>Nonce := TrimPrefix line ''Nonce: ''\<rparr>
                  else if HasPrefix line ''Issued At: '' then i\<lparr>IssuedAt := TrimPrefix line ''Issued At: ''\<rparr>
                  else if HasPrefix line ''Expiration Time: ''
                    then i\<lparr>ExpirationTime := Some (TrimPrefix line ''Expiration Time: '')\<rparr>
                  else if HasPrefix line ''Not Before: '' then i\<lparr>NotBefore := Some (TrimPrefix line ''Not Before: '')\<rparr>
                  else if HasPrefix line ''Request ID: '' then i\<lparr>RequestID := Some (TrimPrefix line ''Request ID: '')\<rparr>
                  else i)
        in st\<lparr>input := i', inResources := False\<rparr>)"

definition emptyInput :: SignInInput where
  "emptyInput = \<lparr>Domain' = [], Address = [], Statement = None, URI = None, Version = None,
                  ChainID = None, Nonce = [], IssuedAt = [], ExpirationTime = None,
                  NotBefore = None, RequestID = None, Resources = []\<rparr>"

definition ParseMessage :: "string \<Rightarrow> error + SignInInput" where
  "ParseMessage message =
     (let lines = Split message
      in if length lines < 2 then Inl ''message too short''
         else
           (case headerMatch (lines ! 0) of
              None \<Rightarrow> Inl ''invalid header format''
            | Some domain \<Rightarrow>
                let address = TrimSpace (lines ! 1)
                in if address = [] then Inl ''missing address''
                   else
                     let input0 = emptyInput\<lparr>Domain' := domain, Address := address\<rparr>;
                         fieldsStart = findFieldsStart 2 (drop 2 lines);
                         input1 =
                           (if fieldsStart > 2
                            then
                              let statementLines =
                                    collectStatement [] (take (nat fieldsStart - 2) (drop 2 lines))
                              in if length statementLines > 0
                                 then let statement = TrimSpace (Join statementLines)
                                      in if statement \<noteq> [] then input0\<lparr>Statement := Some statement\<rparr>
                                         else input0
                                 else input0
                            else input0);
                         st = (if fieldsStart > 0
                               then fold parseLine (drop (nat fieldsStart) lines)
                                      \<lparr>input = input1, inResources = False, resources = []\<rparr>
                               else \<lparr>input = input1, inResources = False, resources = []\<rparr>)
                     in if length (resources st) > 0
                        then Inr ((input st)\<lparr>Resources := resources st\<rparr>)
                        else Inr (input st)))"

text \<open>
  The inputs on which parsing inverts construction.  Domain and address are
  non-empty and on one line, and the address has no space at either end.  A
  statement, when given, is non-empty, has no space at either end and no line
  that, trimmed, begins with one of the five tags that open the field block.
  Every other optional field, when given, is non-empty; every field value and
  every resource is on one line.
\<close>

definition oneLine :: "string \<Rightarrow> bool" where
  "oneLine s \<longleftrightarrow> CHR 0x0A \<notin> set s"

definition optionalLine :: "string option \<Rightarrow> bool" where
  "optionalLine p \<longleftrightarrow> (case p of None \<Rightarrow> True | Some v \<Rightarrow> v \<noteq> [] \<and> oneLine v)"

definition statementOK :: "string option \<Rightarrow> bool" where
  "statementOK p \<longleftrightarrow>
     (case p of
        None \<Rightarrow> True
      | Some s \<Rightarrow> s \<noteq> [] \<and> TrimSpace s = s \<and> (\<forall>l\<in>set (Split s). \<not> isFieldLine (TrimSpace l)))"

definition parseable :: "SignInInput \<Rightarrow> bool" where
  "parseable i \<longleftrightarrow>
     Domain' i \<noteq> [] \<and> oneLine (Domain' i) \<and>
     Address i \<noteq> [] \<and> oneLine (Address i) \<and> TrimSpace (Address i) = Address i \<and>
     statementOK (Statement i) \<and>
     optionalLine (URI i) \<and> optionalLine (Version i) \<and> optionalLine (ChainID i) \<and>
     oneLine (Nonce i) \<and> oneLine (IssuedAt i) \<and>
     optionalLine (ExpirationTime i) \<and> optionalLine (NotBefore i) \<and> optionalLine (RequestID i) \<and>
     (\<forall>r\<in>set (Resources i). oneLine r)"

text \<open>
  The lines of a constructed message after the address: the statement block
  (a blank line and the statement's lines) and, after one more blank line, the
  field lines.
\<close>

definition optLine :: "string \<Rightarrow> string option \<Rightarrow> string list" where
  "optLine tag p = (case p of None \<Rightarrow> [] | Some v \<Rightarrow> if v \<noteq> [] then [tag @ v] else [])"

definition resourceLines :: "string list \<Rightarrow> string list" where
  "resourceLines rs = (if length rs > 0 then ''Resources:'' # map (\<lambda>r. ''- '' @ r) rs else [])"

definition fieldLines :: "SignInInput \<Rightarrow> string list" where
  "fieldLines i =
     optLine ''URI: '' (URI i) @ optLine ''Version: '' (Version i) @
     optLine ''Chain ID: '' (ChainID i) @
     [''Nonce: '' @ Nonce i, ''Issued At: '' @ IssuedAt i] @
     optLine ''Expiration Time: '' (ExpirationTime i) @
     optLine ''Not Before: '' (NotBefore i) @ optLine ''Request ID: '' (RequestID i) @
     resourceLines (Resources i)"

definition statementBlock :: "string option \<Rightarrow> string list" where
  "statementBlock p = (case p of None \<Rightarrow> [] | Some s \<Rightarrow> [] # Split s)"

text \<open>The input of the repository's round-trip test, with two resources added.\<close>

definition testInput :: SignInInput where
  "testInput =
     \<lparr>Domain' = ''example.com'', Address = ''7xKXtg2CW87d97TXJSDpbD5jBkheTqA83TZRuJosgAsU'',
      Statement = Some ''Sign in to test app'', URI = Some ''https://example.com'',
      Version = Some ''1'', ChainID = Some ''mainnet'', Nonce = ''abc12345'',
      IssuedAt = ''2025-12-05T11:00:00Z'', ExpirationTime = Some ''2025-12-05T12:00:00Z'',
      NotBefore = None, RequestID = None, Resources = [''https://a.example'', ''https://b.example'']\<rparr>"

section \<open>Password hashing: password/password.go\<close>

subsection \<open>Machine integers, panics\<close>

text \<open>
  The \<open>uint32\<close> and \<open>uint8\<close> fields are integers; a conversion to the type
  is the remainder that Go's conversion takes.  A Go call either panics or
  returns.
\<close>

definition uint32 :: "int \<Rightarrow> int" where
  "uint32 n = n mod 2 ^ 32"

definition uint8 :: "int \<Rightarrow> int" where
  "uint8 n = n mod 2 ^ 8"

datatype 'a outcome = Panic string | Return 'a

record Params =
  Time :: int
  Memory :: int
  Threads :: int
  SaltLen :: int
  KeyLen :: int

definition DefaultParams :: Params where
  "DefaultParams = \<lparr>Time = 1, Memory = 64 * 1024, Threads = 1, SaltLen = 16, KeyLen = 32\<rparr>"

subsection \<open>The library functions that the code calls\<close>

text \<open>
  \<open>argon2.IDKey\<close> (golang.org/x/crypto): it panics when \<open>time\<close> or \<open>threads\<close> is
  below one, and otherwise returns the derived key, a function \<open>kdf\<close> of its six
  arguments that the development leaves open.  The library's contract, that the
  key has \<open>keyLen\<close> bytes, is a hypothesis where it is needed.
\<close>

type_synonym kdf = "string \<Rightarrow> string \<Rightarrow> int \<Rightarrow> int \<Rightarrow> int \<Rightarrow> int \<Rightarrow> string"

definition IDKey :: "kdf \<Rightarrow> string \<Rightarrow> string \<Rightarrow> int \<Rightarrow> int \<Rightarrow> int \<Rightarrow> int \<Rightarrow> string outcome" where
  "IDKey kdf password salt time memory threads keyLen =
     (if time < 1 then Panic ''argon2: number of rounds too small''
      else if threads < 1 then Panic ''argon2: parallelism degree too low''
      else Return (kdf password salt time memory threads keyLen))"

text \<open>
  \<open>subtle.ConstantTimeCompare\<close>: 1 when the two slices have the same length and
  the same contents, 0 otherwise.
\<close>

definition ConstantTimeCompare :: "string \<Rightarrow> string \<Rightarrow> int" where
  "ConstantTimeCompare x y = (if length x \<noteq> length y then 0 else if x = y then 1 else 0)"

text \<open>\<open>strings.Split(s, sep)\<close> for a separator of one byte.\<close>

fun SplitOn :: "char \<Rightarrow> string \<Rightarrow> string list" where
  "SplitOn sep [] = [[]]"
| "SplitOn sep (c # cs) =
     (if c = sep then [] # SplitOn sep cs
      else (case SplitOn sep cs of l # ls \<Rightarrow> (c # l) # ls | [] \<Rightarrow> [[c]]))"

text \<open>The verb \<open>%d\<close> of \<open>fmt.Sprintf\<close> on an unsigned integer: its decimal digits.\<close>

definition digit :: "int \<Rightarrow> char" where
  "digit d = char_of (48 + d)"

function decimal :: "int \<Rightarrow> string" where
  "decimal n = (if n < 10 then [digit n] else decimal (n div 10) @ [digit (n mod 10)])"
  by pat_completeness auto
termination
  by (relation "measure nat") auto

declare decimal.simps [simp del]

text \<open>
  \<open>base64.RawStdEncoding\<close>: the standard alphabet, no padding.
  \<open>EncodeToString\<close> turns each three bytes into four characters, and a rest of
  one or two bytes into two or three characters.
\<close>

definition encodeStd :: string where
  "encodeStd = ''ABCDEFGHIJKLMNOPQRSTUVWXYZabcdefghijklmnopqrstuvwxyz0123456789+/''"

definition encodeChar :: "int \<Rightarrow> char" where
  "encodeChar v = encodeStd ! nat (v mod 64)"

fun EncodeToString :: "string \<Rightarrow> string" where
  "EncodeToString (a # b # c # src) =
     (let val = of_char a * 65536 + of_char b * 256 + of_char c
      in encodeChar (val div 262144) # encodeChar (val div 4096) # encodeChar (val div 64) #
         encodeChar val # EncodeToString src)"
| "EncodeToString [a, b] =
     (let val = of_char a * 65536 + of_char b * 256
      in [encodeChar (val div 262144), encodeChar (val div 4096), encodeChar (val div 64)])"
| "EncodeToString [a] =
     (let val = of_char a * 65536
      in [encodeChar (val div 262144), encodeChar (val div 4096)])"
| "EncodeToString [] = []"

text \<open>
  \<open>DecodeString\<close>: carriage returns and line feeds are skipped; every other
  byte must be in the alphabet (there is no padding character); four characters
  give three bytes, a rest of two or three characters gives one or two bytes, a
  rest of one character is an error.  The encoding is not strict: the unused low
  bits of a rest are not checked.
\<close>

definition decodeMap :: "char \<Rightarrow> int option" where
  "decodeMap = map_of (zip encodeStd [0 .. 63])"

definition CorruptInputError :: error where
  "CorruptInputError = ''illegal base64 data''"

fun decodeQuanta :: "string \<Rightarrow> error + string" where
  "decodeQuanta (a # b # c # d # src) =
     (case (decodeMap a, decodeMap b, decodeMap c, decodeMap d) of
        (Some w, Some x, Some y, Some z) \<Rightarrow>
          (let val = w * 262144 + x * 4096 + y * 64 + z
           in case decodeQuanta src of
                Inl e \<Rightarrow> Inl e
              | Inr dst \<Rightarrow>
                  Inr (char_of (val div 65536) # char_of (val div 256) # char_of val # dst))
      | _ \<Rightarrow> Inl CorruptInputError)"
| "decodeQuanta [a, b, c] =
     (case (decodeMap a, decodeMap b, decodeMap c) of
        (Some w, Some x, Some y) \<Rightarrow>
          (let val = w * 262144 + x * 4096 + y * 64
           in Inr [char_of (val div 65536), char_of (val div 256)])
      | _ \<Rightarrow> Inl CorruptInputError)"
| "decodeQuanta [a, b] =
     (case (decodeMap a, decodeMap b) of
        (Some w, Some x) \<Rightarrow>
          (let val = w * 262144 + x * 4096
           in Inr [char_of (val div 65536)])
      | _ \<Rightarrow> Inl CorruptInputError)"
| "decodeQuanta [a] = Inl CorruptInputError"
| "decodeQuanta [] = Inr []"

definition DecodeString :: "string \<Rightarrow> error + string" where
  "DecodeString s = decodeQuanta (filter (\<lambda>c. c \<noteq> CHR 0x0A \<and> c \<noteq> CHR 0x0D) s)"

text \<open>
  \<open>fmt.Sscanf(str, "m=%d,t=%d,p=%d", &m, &t, &par)\<close> with three \<open>uint32\<close>
  operands.  A literal of the format must be the next input.  The verb skips
  white space, where a line feed is an error, then reads the longest run of
  decimal digits, which must not be empty and whose value must fit 64 and then
  32 bits.  Input after the last operand is not read.  The error values of the
  library functions are shortened to their kind.
\<close>

fun literal :: "string \<Rightarrow> string \<Rightarrow> error + string" where
  "literal [] s = Inr s"
| "literal (f # fs) [] = Inl ''unexpected EOF''"
| "literal (f # fs) (c # cs) =
     (if f = c then literal fs cs else Inl ''input does not match format'')"

fun SkipSpace :: "string \<Rightarrow> error + string" where
  "SkipSpace [] = Inr []"
| "SkipSpace (c # cs) =
     (if c = CHR 0x0A then Inl ''unexpected newline''
      else (case find (\<lambda>r. prefix r (c # cs)) spaceRunes of
              None \<Rightarrow> Inr (c # cs)
            | Some r \<Rightarrow> SkipSpace (drop (length r - 1) cs)))"

definition isDigit :: "char \<Rightarrow> bool" where
  "isDigit c \<longleftrightarrow> 48 \<le> (of_char c :: int) \<and> (of_char c :: int) \<le> 57"

definition ParseUint :: "string \<Rightarrow> int" where
  "ParseUint tok = foldl (\<lambda>n c. n * 10 + (of_char c - 48)) 0 tok"

definition scanUint :: "string \<Rightarrow> error + (int \<times> string)" where
  "scanUint s =
     (case SkipSpace s of
        Inl e \<Rightarrow> Inl e
      | Inr s' \<Rightarrow>
          if s' = [] then Inl ''unexpected EOF''
          else (let tok = takeWhile isDigit s'; i = ParseUint tok
                in if tok = [] then Inl ''expected integer''
                   else if 2 ^ 64 \<le> i then Inl ''value out of range''
                   else if uint32 i \<noteq> i then Inl ''unsigned integer overflow''
                   else Inr (i, dropWhile isDigit s')))"

definition Sscanf :: "string \<Rightarrow> error + (int \<times> int \<times> int)" where
  "Sscanf str =
     (case literal ''m='' str of Inl e \<Rightarrow> Inl e | Inr s1 \<Rightarrow>
     (case scanUint s1 of Inl e \<Rightarrow> Inl e | Inr (m, s2) \<Rightarrow>
     (case literal '',t='' s2 of Inl e \<Rightarrow> Inl e | Inr s3 \<Rightarrow>
     (case scanUint s3 of Inl e \<Rightarrow> Inl e | Inr (t, s4) \<Rightarrow>
     (case literal '',p='' s4 of Inl e \<Rightarrow> Inl e | Inr s5 \<Rightarrow>
     (case scanUint s5 of Inl e \<Rightarrow> Inl e | Inr (par, s6) \<Rightarrow> Inr (m, t, par)))))))"

subsection \<open>The encoded hash\<close>

definition phcEncode :: "Params \<Rightarrow> string \<Rightarrow> string \<Rightarrow> string" where
  "phcEncode p salt sum0 =
     ''$argon2id$v=19$m='' @ decimal (Memory p) @ '',t='' @ decimal (Time p) @
     '',p='' @ decimal (Threads p) @ ''$'' @ EncodeToString salt @ ''$'' @ EncodeToString sum0"

definition phcDecode :: "string \<Rightarrow> error + (Params \<times> string \<times> string)" where
  "phcDecode s =
     (let parts = SplitOn (CHR ''$'') s
      in if length parts \<noteq> 6 \<or> parts ! 1 \<noteq> ''argon2id'' then Inl ''bad_phc''
         else (case Sscanf (parts ! 3) of Inl e \<Rightarrow> Inl e | Inr (m, t, par) \<Rightarrow>
              (case DecodeString (parts ! 4) of Inl e \<Rightarrow> Inl e | Inr salt \<Rightarrow>
              (case DecodeString (parts ! 5) of Inl e \<Rightarrow> Inl e | Inr sum0 \<Rightarrow>
                 Inr (\<lparr>Time = uint32 t, Memory = uint32 m, Threads = uint8 par,
                       SaltLen = uint32 (int (length salt)), KeyLen = uint32 (int (length sum0))\<rparr>,
                      salt, sum0)))))"

subsection \<open>Hashing and verifying\<close>

text \<open>
  \<open>rand.Read(salt)\<close> fills the slice or fails.  The entropy source is either
  the error or the bytes it delivers, by position in the slice.
\<close>

type_synonym entropy = "error + (nat \<Rightarrow> char)"

definition Read :: "entropy \<Rightarrow> int \<Rightarrow> error + string" where
  "Read src n =
     (case src of Inl err \<Rightarrow> Inl err | Inr bytes \<Rightarrow> Inr (map bytes [0 ..< nat n]))"

definition HashArgon2id :: "kdf \<Rightarrow> entropy \<Rightarrow> string \<Rightarrow> (string \<times> error option) outcome" where
  "HashArgon2id kdf src password =
     (let p = DefaultParams
      in case Read src (SaltLen p) of
           Inl err \<Rightarrow> Return ([], Some err)
         | Inr salt \<Rightarrow>
             (case IDKey kdf password salt (Time p) (Memory p) (Threads p) (KeyLen p) of
                Panic msg \<Rightarrow> Panic msg
              | Return dk \<Rightarrow> Return (phcEncode p salt dk, None)))"

definition VerifyArgon2id :: "kdf \<Rightarrow> string \<Rightarrow> string \<Rightarrow> (bool \<times> error option) outcome" where
  "VerifyArgon2id kdf encoded password =
     (case phcDecode encoded of
        Inl err \<Rightarrow> Return (False, Some err)
      | Inr (p, salt, sum0) \<Rightarrow>
          (case IDKey kdf password salt (Time p) (Memory p) (Threads p) (uint32 (int (length sum0))) of
             Panic msg \<Rightarrow> Panic msg
           | Return dk \<Rightarrow>
               if length dk \<noteq> length sum0 then Return (False, None)
               else if ConstantTimeCompare dk sum0 = 1 then Return (True, None)
               else Return (False, None)))"

text \<open>An entropy source and a key derivation function to run the code on.\<close>

definition exampleRand :: entropy where
  "exampleRand = Inr (\<lambda>i. CHR ''s'')"

definition exampleKdf :: kdf where
  "exampleKdf password salt time memory threads keyLen =
     take (nat keyLen) (password @ salt @ replicate (nat keyLen) (CHR ''k''))"

section \<open>Properties of the rate limiter\<close>

subsection \<open>One call of each backend, in closed form\<close>

lemma pruneLoop_drop:
  "i \<le> length ts \<Longrightarrow> drop (pruneLoop ts w i) ts = dropWhile (\<lambda>t. t < w) (drop i ts)"
proof (induction ts w i rule: pruneLoop.induct)
  case (1 ts w i)
  show ?case
  proof (cases "i < length ts \<and> ts ! i < w")
    case True
    then have "drop i ts = ts ! i # drop (Suc i) ts"
      by (simp add: Cons_nth_drop_Suc)
    with True 1 show ?thesis
      by (subst pruneLoop.simps) simp
  next
    case False
    show ?thesis
    proof (cases "i < length ts")
      case True
      then have "drop i ts = ts ! i # drop (Suc i) ts"
        by (simp add: Cons_nth_drop_Suc)
      with True False show ?thesis
        by (subst pruneLoop.simps) simp
    next
      case False
      with 1 show ?thesis
        by (subst pruneLoop.simps) simp
    qed
  qed
qed

lemma pruned_eq:
  "(if pruneLoop ts w 0 > 0 then drop (pruneLoop ts w 0) ts else ts) = dropWhile (\<lambda>t. t < w) ts"
  using pruneLoop_drop [of 0 ts w] by (cases "pruneLoop ts w 0") auto

lemma AllowNamed_eq:
  assumes "bucket \<noteq> []" "key \<noteq> []"
  shows "AllowNamed (Some L) now bucket key =
     (let k = limitKey bucket key;
          ts = dropWhile (\<lambda>t. t < now - windowMs (limits L) bucket) (entry L k)
      in if limitOf (limits L) bucket \<le> int (length ts)
         then ((False, None),
               Some (L\<lparr>buckets := (if ts = [] then (buckets L)(k := None) else (buckets L)(k \<mapsto> ts))\<rparr>))
         else ((True, None), Some (L\<lparr>buckets := (buckets L)(k \<mapsto> ts @ [now])\<rparr>)))"
  using assms
  by (auto simp add: AllowNamed_def Let_def pruned_eq entry_def windowMs_def limitOf_def
      simp del: dropWhile_eq_Nil_conv split: option.splits)

lemma RAllowNamed_eq:
  assumes "rdb R \<noteq> None" "bucket \<noteq> []" "key \<noteq> []"
  shows "RAllowNamed (Some R) db None now bucket key =
     (let k = limitKey bucket key;
          kept = filter (\<lambda>t. \<not> (0 \<le> t \<and> t \<le> now - windowMs (rlimits R) bucket))
                   (insort_insert now (zmembers db now k));
          sec = formatSec (int64 (Window (fst (get (rlimits R) bucket)) + Second))
      in if limitOf (rlimits R) bucket < int (length kept)
         then ((False, None),
               if sec \<le> 0 then db(k := None)
               else store db k (removeAll now kept) (Some (now + 1000 * sec)))
         else ((True, None),
               if sec \<le> 0 then db(k := None) else store db k kept (Some (now + 1000 * sec))))"
proof -
  let ?k = "limitKey bucket key"
  let ?start = "now - Milliseconds (Window (fst (get (rlimits R) bucket)))"
  let ?old = "zmembers db now ?k"
  let ?kept = "filter (\<lambda>t. \<not> (0 \<le> t \<and> t \<le> ?start)) (insort_insert now ?old)"
  let ?d = "int64 (Window (fst (get (rlimits R) bucket)) + Second)"
  let ?ttl = "formatSec ?d"
  let ?db1 = "ZAdd db now ?k now"
  let ?db2 = "ZRemRangeByScore ?db1 now ?k 0 ?start"
  let ?db3 = "Expire ?db2 now ?k ?d"
  define e0 where "e0 = (case live db now ?k of None \<Rightarrow> None | Some z \<Rightarrow> expireAt z)"
  have ne: "insort_insert now ?old \<noteq> []"
    by (auto simp: insort_insert_key_def)
  have d1: "?db1 = db(?k \<mapsto> \<lparr>members = insort_insert now ?old, expireAt = e0\<rparr>)"
    using ne by (auto simp: ZAdd_def store_def zmembers_def e0_def
        insort_insert_key_def split: option.splits)
  have l1: "live ?db1 now ?k = Some \<lparr>members = insort_insert now ?old, expireAt = e0\<rparr>"
    unfolding d1 by (auto simp: live_def e0_def split: option.splits if_splits)
  have d2: "?db2 = store db ?k ?kept e0"
    unfolding ZRemRangeByScore_def l1 by (simp add: store_def d1)
  have l2: "live ?db2 now ?k = (if ?kept = [] then None else Some \<lparr>members = ?kept, expireAt = e0\<rparr>)"
    unfolding d2 by (auto simp: store_def live_def e0_def split: option.splits if_splits)
  have c2: "ZCard ?db2 now ?k = int (length ?kept)"
    unfolding ZCard_def l2 by simp
  have d3: "?db3 = (if ?ttl \<le> 0 then db(?k := None) else store db ?k ?kept (Some (now + 1000 * ?ttl)))"
    unfolding Expire_def l2 by (simp add: d2 store_def)
  have l3: "0 < ?ttl \<Longrightarrow> ?kept \<noteq> [] \<Longrightarrow>
      live ?db3 now ?k = Some \<lparr>members = ?kept, expireAt = Some (now + 1000 * ?ttl)\<rparr>"
    unfolding d3 by (simp add: store_def live_def)
  have d4: "ZRem ?db3 now ?k now =
      (if ?ttl \<le> 0 then db(?k := None) else store db ?k (removeAll now ?kept) (Some (now + 1000 * ?ttl)))"
  proof (cases "0 < ?ttl \<and> ?kept \<noteq> []")
    case True
    then have "ZRem ?db3 now ?k now = store ?db3 ?k (removeAll now ?kept) (Some (now + 1000 * ?ttl))"
      unfolding ZRem_def by (simp add: l3)
    also have "\<dots> = store db ?k (removeAll now ?kept) (Some (now + 1000 * ?ttl))"
      using True unfolding d3 by (simp add: store_def)
    finally show ?thesis using True by simp
  next
    case False
    then show ?thesis
      unfolding ZRem_def d3 by (auto simp: store_def live_def)
  qed
  from assms(1) obtain c where rc: "rdb R = Some c"
    by auto
  have "RAllowNamed (Some R) db None now bucket key =
      (if Limit (fst (get (rlimits R) bucket)) < ZCard ?db2 now ?k
       then ((False, None), ZRem ?db3 now ?k now) else ((True, None), ?db3))"
    using assms(2,3) by (simp add: RAllowNamed_def Let_def rc)
  also have "\<dots> = (if Limit (fst (get (rlimits R) bucket)) < int (length ?kept)
       then ((False, None),
             if ?ttl \<le> 0 then db(?k := None) else store db ?k (removeAll now ?kept) (Some (now + 1000 * ?ttl)))
       else ((True, None),
             if ?ttl \<le> 0 then db(?k := None) else store db ?k ?kept (Some (now + 1000 * ?ttl))))"
    by (simp only: d4) (simp only: c2 d3)
  finally show ?thesis
    by (simp add: Let_def windowMs_def limitOf_def)
qed

lemma dropWhile_sorted_filter:
  "sorted xs \<Longrightarrow> dropWhile (\<lambda>t. t < (w::int)) xs = filter (\<lambda>t. w \<le> t) xs"
proof (induction xs)
  case Nil
  show ?case by simp
next
  case (Cons x xs)
  show ?case
  proof (cases "x < w")
    case True
    with Cons show ?thesis by simp
  next
    case False
    with Cons.prems have "\<forall>y\<in>set xs. w \<le> y" by auto
    then have "filter (\<lambda>t. w \<le> t) xs = xs" by simp
    with False show ?thesis by simp
  qed
qed

lemma entry_inv:
  "bucketsInv L T \<Longrightarrow> sorted (entry L k) \<and> (\<forall>t\<in>set (entry L k). t \<le> T)"
  by (auto simp: bucketsInv_def entry_def split: option.splits)

lemma bucketsInv_New: "bucketsInv (New lims) T"
  by (simp add: bucketsInv_def New_def)

subsection \<open>Claims about single calls\<close>

text \<open>
  C10.  Both backends fail open on a nil receiver (for Redis also on a nil
  client): the call returns \<open>(true, nil)\<close>.  On a usable limiter an empty
  bucket or an empty key returns \<open>false\<close> together with an error.  The nil
  test comes first in the code, so the second rule speaks of a non-nil limiter.
\<close>

theorem C10_nil_and_empty_arguments:
  "AllowNamed None now bucket key = ((True, None), None) \<and>
   RAllowNamed None db txerr now bucket key = ((True, None), db) \<and>
   (rdb R = None \<longrightarrow> RAllowNamed (Some R) db txerr now bucket key = ((True, None), db)) \<and>
   (bucket = [] \<or> key = [] \<longrightarrow>
      (\<exists>e. AllowNamed (Some L) now bucket key = ((False, Some e), Some L)) \<and>
      (rdb R \<noteq> None \<longrightarrow>
         (\<exists>e. RAllowNamed (Some R) db txerr now bucket key = ((False, Some e), db))))"
  by (simp add: AllowNamed_def RAllowNamed_def)

theorem C10_witness:
  "AllowNamed None 5 '''' ''u'' = ((True, None), None) \<and>
   RAllowNamed None Map.empty None 5 '''' ''u'' = ((True, None), Map.empty) \<and>
   RAllowNamed (Some (RNew None Map.empty)) Map.empty None 5 ''login'' ''u''
     = ((True, None), Map.empty) \<and>
   (\<exists>e. AllowNamed (Some (New Map.empty)) 5 '''' ''u'' = ((False, Some e), Some (New Map.empty))) \<and>
   (\<exists>e. RAllowNamed (Some (RNew (Some Client) Map.empty)) Map.empty None 5 ''login'' ''''
      = ((False, Some e), Map.empty))"
  using C10_nil_and_empty_arguments
          [of 5 "''''" "''u''" Map.empty None "RNew None Map.empty" "New Map.empty"]
        C10_nil_and_empty_arguments
          [of 5 "''login''" "''''" Map.empty None "RNew (Some Client) Map.empty" "New Map.empty"]
        C10_nil_and_empty_arguments
          [of 5 "''login''" "''u''" Map.empty None "RNew None Map.empty" "New Map.empty"]
  by (simp add: RNew_def)

text \<open>
  C9 (as amended).  The in-memory limiter keeps its bucket invariant when its
  clock does not run backwards and windows are not negative.  Starting from a state
  in which no entry is empty, every entry is in time order and no timestamp
  lies after the last clock reading, a call whose clock reading is not earlier
  and whose bucket has a non-negative window leaves such a state again, and:
  the accessed entry holds no timestamp older than \<open>now - window\<close>; an entry
  that was absent before and present after was created by an admission; an
  entry whose timestamps have all aged out is removed when the call is denied
  and holds exactly the new timestamp when it is admitted, so it is never kept
  empty; no other entry and no limit changes.
\<close>

theorem C9_bucket_invariant:
  assumes inv: "bucketsInv L T" and clock: "T \<le> now"
    and window: "0 \<le> windowMs (limits L) bucket"
    and args: "bucket \<noteq> []" "key \<noteq> []"
  shows "\<exists>r L'. AllowNamed (Some L) now bucket key = (r, Some L') \<and>
           bucketsInv L' now \<and>
           (\<forall>t\<in>set (entry L' (limitKey bucket key)). now - windowMs (limits L) bucket \<le> t) \<and>
           (buckets L (limitKey bucket key) = None \<and> buckets L' (limitKey bucket key) \<noteq> None
              \<longrightarrow> r = (True, None)) \<and>
           ((\<forall>t\<in>set (entry L (limitKey bucket key)). t < now - windowMs (limits L) bucket)
              \<longrightarrow> buckets L' (limitKey bucket key) = (if fst r then Some [now] else None)) \<and>
           (\<forall>k'. k' \<noteq> limitKey bucket key \<longrightarrow> buckets L' k' = buckets L k') \<and>
           limits L' = limits L"
proof -
  define k where "k = limitKey bucket key"
  define w where "w = now - windowMs (limits L) bucket"
  define ts where "ts = dropWhile (\<lambda>t. t < w) (entry L k)"
  have old: "sorted (entry L k)" "\<forall>t\<in>set (entry L k). t \<le> T"
    using entry_inv [OF inv] by auto
  have ts_filter: "ts = filter (\<lambda>t. w \<le> t) (entry L k)"
    unfolding ts_def using old(1) by (rule dropWhile_sorted_filter)
  have ts_sorted: "sorted ts" and ts_le: "\<forall>t\<in>set ts. t \<le> now" and ts_ge: "\<forall>t\<in>set ts. w \<le> t"
    using old clock by (auto simp: ts_filter sorted_wrt_filter)
  have others: "\<And>k' b. k' \<noteq> k \<Longrightarrow> buckets L k' = Some b \<Longrightarrow>
      b \<noteq> [] \<and> sorted b \<and> (\<forall>t\<in>set b. t \<le> now)"
    using inv clock by (fastforce simp: bucketsInv_def)
  show ?thesis
  proof (cases "limitOf (limits L) bucket \<le> int (length ts)")
    case True
    define L' where "L' = L\<lparr>buckets := (if ts = [] then (buckets L)(k := None) else (buckets L)(k \<mapsto> ts))\<rparr>"
    have step: "AllowNamed (Some L) now bucket key = ((False, None), Some L')"
      using True args by (simp add: AllowNamed_eq Let_def k_def w_def ts_def L'_def)
    have inv': "bucketsInv L' now"
      unfolding bucketsInv_def
    proof (intro allI impI)
      fix k' b assume "buckets L' k' = Some b"
      then show "b \<noteq> [] \<and> sorted b \<and> (\<forall>t\<in>set b. t \<le> now)"
        using others [of k' b] ts_sorted ts_le
        by (cases "k' = k") (auto simp: L'_def split: if_splits)
    qed
    have e': "entry L' k = ts"
      by (simp add: entry_def L'_def)
    have created: "buckets L k = None \<Longrightarrow> buckets L' k = None"
      by (simp add: L'_def ts_def entry_def)
    have aged: "\<forall>t\<in>set (entry L k). t < w \<Longrightarrow> buckets L' k = None"
      by (simp add: L'_def ts_def)
    have c2: "\<forall>t\<in>set (entry L' k). w \<le> t"
      using e' ts_ge by simp
    have c3: "buckets L k = None \<and> buckets L' k \<noteq> None \<longrightarrow> (False, None :: error option) = (True, None)"
      using created by (cases "buckets L k") auto
    have c4: "(\<forall>t\<in>set (entry L k). t < w)
        \<longrightarrow> buckets L' k = (if fst (False, None :: error option) then Some [now] else None)"
      using aged by simp
    have c5: "\<forall>k'. k' \<noteq> k \<longrightarrow> buckets L' k' = buckets L k'"
      by (simp add: L'_def)
    have c6: "limits L' = limits L"
      by (simp add: L'_def)
    show ?thesis
      using step inv' c2 c3 c4 c5 c6 unfolding k_def w_def by blast
  next
    case False
    define L' where "L' = L\<lparr>buckets := (buckets L)(k \<mapsto> ts @ [now])\<rparr>"
    have step: "AllowNamed (Some L) now bucket key = ((True, None), Some L')"
      using False args by (simp add: AllowNamed_eq Let_def k_def w_def ts_def L'_def)
    have new_sorted: "sorted (ts @ [now])"
      using ts_sorted ts_le by (simp add: sorted_append)
    have inv': "bucketsInv L' now"
      unfolding bucketsInv_def
    proof (intro allI impI)
      fix k' b assume "buckets L' k' = Some b"
      then show "b \<noteq> [] \<and> sorted b \<and> (\<forall>t\<in>set b. t \<le> now)"
        using others [of k' b] new_sorted ts_le
        by (cases "k' = k") (auto simp: L'_def split: if_splits)
    qed
    have e': "entry L' k = ts @ [now]"
      by (simp add: entry_def L'_def)
    have aged: "\<forall>t\<in>set (entry L k). t < w \<Longrightarrow> buckets L' k = Some [now]"
      by (simp add: L'_def ts_def)
    have c2: "\<forall>t\<in>set (entry L' k). w \<le> t"
      using e' ts_ge window by (simp add: w_def)
    have c3: "buckets L k = None \<and> buckets L' k \<noteq> None \<longrightarrow> (True, None :: error option) = (True, None)"
      by simp
    have c4: "(\<forall>t\<in>set (entry L k). t < w)
        \<longrightarrow> buckets L' k = (if fst (True, None :: error option) then Some [now] else None)"
      using aged by simp
    have c5: "\<forall>k'. k' \<noteq> k \<longrightarrow> buckets L' k' = buckets L k'"
      by (simp add: L'_def)
    have c6: "limits L' = limits L"
      by (simp add: L'_def)
    show ?thesis
      using step inv' c2 c3 c4 c5 c6 unfolding k_def w_def by blast
  qed
qed


theorem C9_witness:
  "bucketsInv \<lparr>limits = [''login'' \<mapsto> \<lparr>Limit = 2, Window = 60 * Second\<rparr>],
               buckets = [''u:login'' \<mapsto> [1000, 2000]]\<rparr> 2000 \<and>
   (\<exists>r L'. AllowNamed (Some \<lparr>limits = [''login'' \<mapsto> \<lparr>Limit = 2, Window = 60 * Second\<rparr>],
                               buckets = [''u:login'' \<mapsto> [1000, 2000]]\<rparr>) 61500 ''login'' ''u''
              = (r, Some L') \<and>
            bucketsInv L' 61500 \<and>
            (\<forall>t\<in>set (entry L' ''u:login''). 1500 \<le> t) \<and>
            (\<forall>k'. k' \<noteq> ''u:login'' \<longrightarrow> buckets L' k' = None))"
proof -
  let ?L = "\<lparr>limits = [''login'' \<mapsto> \<lparr>Limit = 2, Window = 60 * Second\<rparr>],
             buckets = [''u:login'' \<mapsto> [1000, 2000 :: int]]\<rparr>"
  have w: "windowMs (limits ?L) ''login'' = 60000"
    by (simp add: windowMs_def get_def Milliseconds_def quo_def Second_def)
  have inv: "bucketsInv ?L 2000"
    by (simp add: bucketsInv_def)
  have k: "limitKey ''login'' ''u'' = ''u:login''"
    by (simp add: limitKey_def)
  from C9_bucket_invariant [OF inv, of 61500 "''login''" "''u''"] w k
  have "\<exists>r L'. AllowNamed (Some ?L) 61500 ''login'' ''u'' = (r, Some L') \<and>
            bucketsInv L' 61500 \<and>
            (\<forall>t\<in>set (entry L' ''u:login''). 61500 - 60000 \<le> t) \<and>
            (\<forall>k'. k' \<noteq> ''u:login'' \<longrightarrow> buckets L' k' = buckets ?L k')"
    by simp blast
  with inv show ?thesis
    by simp
qed

text \<open>
  The claim as stated fails.  The call reads the wall clock, and the pruning
  loop stops at the first timestamp inside the window: after calls at 5000,
  1000 and 62000 ms (default limit, 100 per minute) the accessed entry still
  holds 1000, which is older than \<open>62000 - 60000\<close>.  And an entry whose
  timestamps have all aged out is not deleted by an admitted call: it holds
  the new timestamp.
\<close>

theorem C9_counterexample:
  "AllowNamed (Some (New Map.empty)) 5000 ''login'' ''u''
     = ((True, None), Some \<lparr>limits = Map.empty, buckets = [''u:login'' \<mapsto> [5000]]\<rparr>) \<and>
   AllowNamed (Some \<lparr>limits = Map.empty, buckets = [''u:login'' \<mapsto> [5000]]\<rparr>) 1000 ''login'' ''u''
     = ((True, None), Some \<lparr>limits = Map.empty, buckets = [''u:login'' \<mapsto> [5000, 1000]]\<rparr>) \<and>
   AllowNamed (Some \<lparr>limits = Map.empty, buckets = [''u:login'' \<mapsto> [5000, 1000]]\<rparr>) 62000 ''login'' ''u''
     = ((True, None),
        Some \<lparr>limits = Map.empty, buckets = [''u:login'' \<mapsto> [5000, 1000, 62000]]\<rparr>) \<and>
   1000 < 62000 - windowMs Map.empty ''login'' \<and>
   AllowNamed (Some \<lparr>limits = Map.empty, buckets = [''u:login'' \<mapsto> [1000]]\<rparr>) 62000 ''login'' ''u''
     = ((True, None), Some \<lparr>limits = Map.empty, buckets = [''u:login'' \<mapsto> [62000]]\<rparr>)"
  by (simp add: AllowNamed_eq New_def Let_def limitKey_def windowMs_def limitOf_def get_def
      Milliseconds_def quo_def Minute_def entry_def)

subsection \<open>The two backends on a common history\<close>












text \<open>
  Each condition of a regular history excludes histories on which the backends
  differ: a clock reading before the epoch is never trimmed by Redis; with a
  window below one millisecond and limit 0 Redis trims the call's own member
  before counting; two buckets that share a storage key give it different
  deadlines; a window for which \<open>Window + 1s\<close> wraps makes Redis delete the key
  at every call; and when the clock runs backwards the in-memory list is out
  of order while the sorted set is not.
\<close>

lemma irregular_negative_clock:
  "runMem (Some (New [''login'' \<mapsto> \<lparr>Limit = 1, Window = Second\<rparr>]))
      [(''login'', ''u'', - 3000), (''login'', ''u'', - 1500)]
     = [(True, None), (True, None)] \<and>
   runRedis (Some (RNew (Some Client) [''login'' \<mapsto> \<lparr>Limit = 1, Window = Second\<rparr>])) Map.empty
      [(''login'', ''u'', - 3000), (''login'', ''u'', - 1500)]
     = [(True, None), (False, None)]"
  by (simp add: AllowNamed_eq RAllowNamed_eq New_def RNew_def Let_def limitKey_def windowMs_def
      limitOf_def get_def Milliseconds_def quo_def Minute_def Second_def entry_def zmembers_def
      live_def store_def formatSec_def int64_def insort_insert_key_def)

lemma irregular_zero_window:
  "runMem (Some (New [''login'' \<mapsto> \<lparr>Limit = 0, Window = 0\<rparr>])) [(''login'', ''u'', 1000)]
     = [(False, None)] \<and>
   runRedis (Some (RNew (Some Client) [''login'' \<mapsto> \<lparr>Limit = 0, Window = 0\<rparr>])) Map.empty
      [(''login'', ''u'', 1000)]
     = [(True, None)]"
  by (simp add: AllowNamed_eq RAllowNamed_eq New_def RNew_def Let_def limitKey_def windowMs_def
      limitOf_def get_def Milliseconds_def quo_def Minute_def Second_def entry_def zmembers_def
      live_def store_def formatSec_def int64_def insort_insert_key_def)

lemma irregular_shared_key:
  "runMem (Some (New [''b'' \<mapsto> \<lparr>Limit = 1, Window = 2 * Second\<rparr>,
                       ''a:b'' \<mapsto> \<lparr>Limit = 1, Window = 60 * Minute\<rparr>]))
      [(''b'', ''u:a'', 1000), (''a:b'', ''u'', 10000)]
     = [(True, None), (False, None)] \<and>
   runRedis (Some (RNew (Some Client) [''b'' \<mapsto> \<lparr>Limit = 1, Window = 2 * Second\<rparr>,
                                        ''a:b'' \<mapsto> \<lparr>Limit = 1, Window = 60 * Minute\<rparr>])) Map.empty
      [(''b'', ''u:a'', 1000), (''a:b'', ''u'', 10000)]
     = [(True, None), (True, None)]"
  by (simp add: AllowNamed_eq RAllowNamed_eq New_def RNew_def Let_def limitKey_def windowMs_def
      limitOf_def get_def Milliseconds_def quo_def Minute_def Second_def entry_def zmembers_def
      live_def store_def formatSec_def int64_def insort_insert_key_def)

lemma irregular_wrapped_window:
  "runMem (Some (New [''login'' \<mapsto> \<lparr>Limit = 1, Window = 9223372036854775807\<rparr>]))
      [(''login'', ''u'', 1000), (''login'', ''u'', 2000)]
     = [(True, None), (False, None)] \<and>
   runRedis (Some (RNew (Some Client) [''login'' \<mapsto> \<lparr>Limit = 1, Window = 9223372036854775807\<rparr>]))
      Map.empty [(''login'', ''u'', 1000), (''login'', ''u'', 2000)]
     = [(True, None), (True, None)]"
  by (simp add: AllowNamed_eq RAllowNamed_eq New_def RNew_def Let_def limitKey_def windowMs_def
      limitOf_def get_def Milliseconds_def quo_def Minute_def Second_def entry_def zmembers_def
      live_def store_def formatSec_def int64_def insort_insert_key_def)

lemma irregular_clock_backwards:
  "runMem (Some (New [''login'' \<mapsto> \<lparr>Limit = 2, Window = Minute\<rparr>]))
      [(''login'', ''u'', 5000), (''login'', ''u'', 1000), (''login'', ''u'', 61500)]
     = [(True, None), (True, None), (False, None)] \<and>
   runRedis (Some (RNew (Some Client) [''login'' \<mapsto> \<lparr>Limit = 2, Window = Minute\<rparr>])) Map.empty
      [(''login'', ''u'', 5000), (''login'', ''u'', 1000), (''login'', ''u'', 61500)]
     = [(True, None), (True, None), (True, None)]"
  by (simp add: AllowNamed_eq RAllowNamed_eq New_def RNew_def Let_def limitKey_def windowMs_def
      limitOf_def get_def Milliseconds_def quo_def Minute_def Second_def entry_def zmembers_def
      live_def store_def formatSec_def int64_def insort_insert_key_def)

subsection \<open>The example of the specification\<close>















subsection \<open>Denied calls\<close>

text \<open>
  C5.  A denied call must leave the recorded in-window events as they were.  The
  Redis limiter adds the member \<open>now\<close> before counting and removes the member
  \<open>now\<close> on denial; when an event admitted in the same millisecond is already
  recorded, the removal erases that event.  Below, the key holds the admitted
  events 1000 and 2000 and a call at 2000 under limit 1 is denied: Redis is
  left with the event 1000 only, while the in-memory limiter in the same state
  keeps both events.
\<close>

theorem C5_redis_denial_erases_recorded_event:
  "RAllowNamed (Some (RNew (Some Client) [''login'' \<mapsto> \<lparr>Limit = 1, Window = Minute\<rparr>]))
      [''u:login'' \<mapsto> \<lparr>members = [1000, 2000], expireAt = Some 63000\<rparr>] None 2000 ''login'' ''u''
     = ((False, None), [''u:login'' \<mapsto> \<lparr>members = [1000], expireAt = Some 63000\<rparr>]) \<and>
   AllowNamed (Some \<lparr>limits = [''login'' \<mapsto> \<lparr>Limit = 1, Window = Minute\<rparr>],
                     buckets = [''u:login'' \<mapsto> [1000, 2000]]\<rparr>) 2000 ''login'' ''u''
     = ((False, None), Some \<lparr>limits = [''login'' \<mapsto> \<lparr>Limit = 1, Window = Minute\<rparr>],
                              buckets = [''u:login'' \<mapsto> [1000, 2000]]\<rparr>)"
  by (simp add: AllowNamed_eq RAllowNamed_eq RNew_def Let_def limitKey_def windowMs_def
      limitOf_def get_def Milliseconds_def quo_def Minute_def Second_def entry_def zmembers_def
      live_def store_def formatSec_def int64_def insort_insert_key_def)

section \<open>Properties of refresh-session rotation\<close>

lemma rotate_untracked:
  assumes "\<not> tracked tbl (fingerprint tok)"
  shows "rotate now fresh tok tbl = (Inl ReuseDetected, revoke_family now (family tok) tbl)"
proof -
  have "find (\<lambda>r. revoked_at r = None \<and> current_token_hash r = fingerprint tok) tbl = None"
    using assms by (auto simp: find_None_iff tracked_def)
  moreover have "find (\<lambda>r. revoked_at r = None \<and> previous_token_hash r = Some (fingerprint tok)) tbl = None"
    using assms by (auto simp: find_None_iff tracked_def)
  ultimately show ?thesis
    by (simp add: rotate_def)
qed

lemma rotate_current:
  assumes "s \<in> set tbl" "revoked_at s = None" "current_token_hash s = fingerprint tok"
    and only: "\<forall>r\<in>set tbl. revoked_at r = None \<and> current_token_hash r = fingerprint tok \<longrightarrow> id' r = id' s"
  shows "rotate now fresh tok tbl =
     (Inr (Advanced fresh),
      map (\<lambda>r. if id' r = id' s
                then r\<lparr>previous_token_hash := Some (current_token_hash r),
                       current_token_hash := fresh, last_used_at := now\<rparr>
                else r) tbl)"
proof -
  have "\<exists>r. find (\<lambda>r. revoked_at r = None \<and> current_token_hash r = fingerprint tok) tbl = Some r"
    using assms(1-3) by (cases "find (\<lambda>r. revoked_at r = None \<and> current_token_hash r = fingerprint tok) tbl")
      (auto simp: find_None_iff)
  then obtain r where r: "find (\<lambda>r. revoked_at r = None \<and> current_token_hash r = fingerprint tok) tbl = Some r"
    by blast
  then have "r \<in> set tbl" "revoked_at r = None" "current_token_hash r = fingerprint tok"
    by (auto simp: find_Some_iff)
  with only have "id' r = id' s" by blast
  with r show ?thesis
    by (simp add: rotate_def)
qed

lemma same_id_same_row:
  "distinct (map id' tbl) \<Longrightarrow> r \<in> set tbl \<Longrightarrow> s \<in> set tbl \<Longrightarrow> id' r = id' s \<Longrightarrow> r = s"
  by (meson distinct_map inj_onD)

lemma rotate_advances:
  assumes sole: "sole_holder Fs tbl s" and cur: "current_token_hash s = F" and F: "F \<in> Fs"
  shows "rotate now fresh \<lparr>family = f, fingerprint = F\<rparr> tbl =
           (Inr (Advanced fresh), map (\<lambda>r. if id' r = id' s then advance now fresh r else r) tbl)"
    and "sole_holder Fs (map (\<lambda>r. if id' r = id' s then advance now fresh r else r) tbl)
           (advance now fresh s)"
proof -
  let ?u = "\<lambda>r. if id' r = id' s then advance now fresh r else r"
  have s: "s \<in> set tbl" "revoked_at s = None" and ids: "distinct (map id' tbl)"
    using sole by (simp_all add: sole_holder_def)
  have only: "\<forall>r\<in>set tbl. revoked_at r = None \<and> current_token_hash r = fingerprint \<lparr>family = f, fingerprint = F\<rparr>
      \<longrightarrow> id' r = id' s"
    using sole F by (auto simp: sole_holder_def)
  from rotate_current [OF s(1) s(2) _ only, of now fresh] cur
  show "rotate now fresh \<lparr>family = f, fingerprint = F\<rparr> tbl = (Inr (Advanced fresh), map ?u tbl)"
    by (simp add: advance_def)
  have idu: "\<And>r. id' (?u r) = id' r"
    by (simp add: advance_def)
  have eq: "map id' (map ?u tbl) = map id' tbl"
    by (induction tbl) (simp_all add: advance_def)
  have d: "distinct (map id' (map ?u tbl))"
    unfolding eq by (rule ids)
  have m: "advance now fresh s \<in> set (map ?u tbl)"
    using s(1) by force
  have o: "\<forall>r\<in>set (map ?u tbl). id' r \<noteq> id' (advance now fresh s) \<longrightarrow> revoked_at r = None \<longrightarrow>
        current_token_hash r \<notin> Fs \<and> (\<forall>F\<in>Fs. previous_token_hash r \<noteq> Some F)"
  proof (intro ballI impI)
    fix r assume r: "r \<in> set (map ?u tbl)" "id' r \<noteq> id' (advance now fresh s)" "revoked_at r = None"
    then obtain r0 where r0: "r0 \<in> set tbl" "r = ?u r0" by auto
    with r(2) have "id' r0 \<noteq> id' s" by (auto simp: advance_def split: if_splits)
    with r0 r(3) sole show "current_token_hash r \<notin> Fs \<and> (\<forall>F\<in>Fs. previous_token_hash r \<noteq> Some F)"
      by (simp add: sole_holder_def)
  qed
  show "sole_holder Fs (map ?u tbl) (advance now fresh s)"
    unfolding sole_holder_def using m d o s(2) by (simp add: advance_def)
qed

lemma revoke_row_fields:
  "family_id (revoke_row now f r) = family_id r"
  "id' (revoke_row now f r) = id' r"
  "current_token_hash (revoke_row now f r) = current_token_hash r"
  "previous_token_hash (revoke_row now f r) = previous_token_hash r"
  by (simp_all add: revoke_row_def)

lemma revoke_row_live:
  "revoked_at (revoke_row now f r) = None \<longleftrightarrow> revoked_at r = None \<and> family_id r \<noteq> f"
  by (auto simp: revoke_row_def)

lemma revoke_row_idle:
  "family_id r = f \<longrightarrow> revoked_at r \<noteq> None \<Longrightarrow> revoke_row now f r = r"
  by (auto simp: revoke_row_def)

lemma revoke_family_idle:
  "\<forall>r\<in>set tbl. family_id r = f \<longrightarrow> revoked_at r \<noteq> None \<Longrightarrow> revoke_family now f tbl = tbl"
  unfolding revoke_family_def by (induction tbl) (simp_all add: revoke_row_idle)

lemma revoked_family_untracked:
  assumes sole: "sole_holder Fs tbl s" and fam: "family_id s = f" and F: "F \<in> Fs"
  shows "\<not> tracked (revoke_family now f tbl) F"
    and "\<forall>r\<in>set (revoke_family now f tbl). family_id r = f \<longrightarrow> revoked_at r \<noteq> None"
    and "revoke_family now' f (revoke_family now f tbl) = revoke_family now f tbl"
proof -
  show "\<not> tracked (revoke_family now f tbl) F"
  proof
    assume "tracked (revoke_family now f tbl) F"
    then obtain r' where r': "r' \<in> set (revoke_family now f tbl)" "revoked_at r' = None"
      "current_token_hash r' = F \<or> previous_token_hash r' = Some F"
      unfolding tracked_def by blast
    from r'(1) obtain r where r: "r \<in> set tbl" and eq: "r' = revoke_row now f r"
      unfolding revoke_family_def by (auto simp only: set_map image_iff)
    from r'(2) have live: "revoked_at r = None" "family_id r \<noteq> f"
      unfolding eq by (simp_all add: revoke_row_live)
    from r'(3) have holds: "current_token_hash r = F \<or> previous_token_hash r = Some F"
      unfolding eq by (simp add: revoke_row_fields)
    have "id' r \<noteq> id' s"
    proof
      assume "id' r = id' s"
      with same_id_same_row [of tbl r s] sole r have "r = s"
        by (simp add: sole_holder_def)
      with fam live(2) show False by simp
    qed
    with sole r live(1) F have "current_token_hash r \<noteq> F \<and> previous_token_hash r \<noteq> Some F"
      unfolding sole_holder_def by blast
    with holds show False by simp
  qed
  show all: "\<forall>r\<in>set (revoke_family now f tbl). family_id r = f \<longrightarrow> revoked_at r \<noteq> None"
  proof (intro ballI impI)
    fix r' assume "r' \<in> set (revoke_family now f tbl)" and f: "family_id r' = f"
    then obtain r where eq: "r' = revoke_row now f r"
      unfolding revoke_family_def by (auto simp only: set_map image_iff)
    from f have "family_id r = f"
      unfolding eq by (simp add: revoke_row_fields)
    then have "\<not> (revoked_at r = None \<and> family_id r \<noteq> f)"
      by simp
    then show "revoked_at r' \<noteq> None"
      unfolding eq by (simp only: revoke_row_live not_False_eq_True)
  qed
  show "revoke_family now' f (revoke_family now f tbl) = revoke_family now f tbl"
    using all by (rule revoke_family_idle)
qed

text \<open>
  C3.  A session of family \<open>f\<close> whose tokens' fingerprints are held by no other
  non-revoked session is rotated \<open>F0 \<rightarrow> F1 \<rightarrow> F2\<close>.  Presenting \<open>F0\<close> again then
  matches neither slot of any non-revoked session: the call returns the reuse
  error and every session of the family is revoked.  From then on a rotate call
  presenting \<open>F0\<close>, \<open>F1\<close> or \<open>F2\<close> is rejected with the reuse error and changes
  nothing.
\<close>

theorem C3_reuse_revokes_family:
  assumes sole: "sole_holder {F0, F1, F2} tbl s"
    and s: "current_token_hash s = F0" "family_id s = f"
    and dist: "F0 \<noteq> F1" "F1 \<noteq> F2" "F0 \<noteq> F2"
    and r1: "rotate n1 F1 \<lparr>family = f, fingerprint = F0\<rparr> tbl = (res1, tbl1)"
    and r2: "rotate n2 F2 \<lparr>family = f, fingerprint = F1\<rparr> tbl1 = (res2, tbl2)"
    and r3: "rotate n3 F3 \<lparr>family = f, fingerprint = F0\<rparr> tbl2 = (res3, tbl3)"
  shows "res1 = Inr (Advanced F1) \<and> res2 = Inr (Advanced F2) \<and> res3 = Inl ReuseDetected \<and>
         (\<forall>r\<in>set tbl3. family_id r = f \<longrightarrow> revoked_at r \<noteq> None) \<and>
         (\<forall>F\<in>{F0, F1, F2}. \<forall>n fresh.
            rotate n fresh \<lparr>family = f, fingerprint = F\<rparr> tbl3 = (Inl ReuseDetected, tbl3))"
proof -
  let ?Fs = "{F0, F1, F2}"
  define s1 where "s1 = advance n1 F1 s"
  define s2 where "s2 = advance n2 F2 s1"
  have in0: "F0 \<in> ?Fs" and in1: "F1 \<in> ?Fs"
    by simp_all
  from rotate_advances(1) [OF sole s(1) in0, where now = n1 and fresh = F1 and f = f] r1
  have a1: "res1 = Inr (Advanced F1)"
    and t1: "tbl1 = map (\<lambda>r. if id' r = id' s then advance n1 F1 r else r) tbl"
    by simp_all
  have sole1: "sole_holder ?Fs tbl1 s1"
    unfolding t1 s1_def by (rule rotate_advances(2) [OF sole s(1) in0])
  have c1: "current_token_hash s1 = F1"
    by (simp add: s1_def advance_def)
  from rotate_advances(1) [OF sole1 c1 in1, where now = n2 and fresh = F2 and f = f] r2
  have a2: "res2 = Inr (Advanced F2)"
    and t2: "tbl2 = map (\<lambda>r. if id' r = id' s1 then advance n2 F2 r else r) tbl1"
    by simp_all
  have sole2: "sole_holder ?Fs tbl2 s2"
    unfolding t2 s2_def by (rule rotate_advances(2) [OF sole1 c1 in1])
  have s2: "current_token_hash s2 = F2" "previous_token_hash s2 = Some F1" "family_id s2 = f"
    "revoked_at s2 = None"
    using s(2) sole by (simp_all add: s2_def s1_def advance_def sole_holder_def)
  have "\<not> tracked tbl2 F0"
  proof
    assume "tracked tbl2 F0"
    then obtain r where r: "r \<in> set tbl2" "revoked_at r = None"
      "current_token_hash r = F0 \<or> previous_token_hash r = Some F0"
      by (auto simp: tracked_def)
    show False
    proof (cases "id' r = id' s2")
      case True
      with same_id_same_row [of tbl2 r s2] sole2 r(1) have "r = s2"
        by (simp add: sole_holder_def)
      with r(3) s2 dist show False by auto
    next
      case False
      with sole2 r show False by (auto simp: sole_holder_def)
    qed
  qed
  with r3 have a3: "res3 = Inl ReuseDetected" and t3: "tbl3 = revoke_family n3 f tbl2"
    by (simp_all add: rotate_untracked)
  have all_revoked: "\<forall>r\<in>set tbl3. family_id r = f \<longrightarrow> revoked_at r \<noteq> None"
    unfolding t3 by (rule revoked_family_untracked(2) [OF sole2 s2(3), of F0]) simp
  have after: "\<forall>F\<in>?Fs. \<forall>n fresh. rotate n fresh \<lparr>family = f, fingerprint = F\<rparr> tbl3 = (Inl ReuseDetected, tbl3)"
  proof (intro ballI allI)
    fix F n fresh assume F: "F \<in> ?Fs"
    have "\<not> tracked tbl3 (fingerprint \<lparr>family = f, fingerprint = F\<rparr>)"
      unfolding t3 using revoked_family_untracked(1) [OF sole2 s2(3) F] by simp
    then have "rotate n fresh \<lparr>family = f, fingerprint = F\<rparr> tbl3 = (Inl ReuseDetected, revoke_family n f tbl3)"
      by (simp add: rotate_untracked)
    also have "revoke_family n f tbl3 = tbl3"
      unfolding t3 by (rule revoked_family_untracked(3) [OF sole2 s2(3) F])
    finally show "rotate n fresh \<lparr>family = f, fingerprint = F\<rparr> tbl3 = (Inl ReuseDetected, tbl3)" .
  qed
  from a1 a2 a3 all_revoked after show ?thesis by blast
qed

theorem C3_witness:
  "sole_holder {''F0'', ''F1'', ''F2''} exampleTable (row 1 7 ''F0'') \<and>
   (\<exists>tbl1 tbl2 tbl3.
      rotate 10 ''F1'' \<lparr>family = 7, fingerprint = ''F0''\<rparr> exampleTable = (Inr (Advanced ''F1''), tbl1) \<and>
      rotate 20 ''F2'' \<lparr>family = 7, fingerprint = ''F1''\<rparr> tbl1 = (Inr (Advanced ''F2''), tbl2) \<and>
      rotate 30 ''F3'' \<lparr>family = 7, fingerprint = ''F0''\<rparr> tbl2 = (Inl ReuseDetected, tbl3) \<and>
      map revoked_at tbl3 = [Some 30, Some 30, None] \<and>
      rotate 40 ''F4'' \<lparr>family = 7, fingerprint = ''F2''\<rparr> tbl3 = (Inl ReuseDetected, tbl3))"
proof -
  have sole: "sole_holder {''F0'', ''F1'', ''F2''} exampleTable (row 1 7 ''F0'')"
    by (simp add: sole_holder_def exampleTable_def row_def)
  obtain res1 tbl1 where r1: "rotate 10 ''F1'' \<lparr>family = 7, fingerprint = ''F0''\<rparr> exampleTable = (res1, tbl1)"
    by (cases "rotate 10 ''F1'' \<lparr>family = 7, fingerprint = ''F0''\<rparr> exampleTable") blast
  obtain res2 tbl2 where r2: "rotate 20 ''F2'' \<lparr>family = 7, fingerprint = ''F1''\<rparr> tbl1 = (res2, tbl2)"
    by (cases "rotate 20 ''F2'' \<lparr>family = 7, fingerprint = ''F1''\<rparr> tbl1") blast
  obtain res3 tbl3 where r3: "rotate 30 ''F3'' \<lparr>family = 7, fingerprint = ''F0''\<rparr> tbl2 = (res3, tbl3)"
    by (cases "rotate 30 ''F3'' \<lparr>family = 7, fingerprint = ''F0''\<rparr> tbl2") blast
  from C3_reuse_revokes_family [OF sole _ _ _ _ _ r1 r2 r3]
  have c: "res1 = Inr (Advanced ''F1'')" "res2 = Inr (Advanced ''F2'')" "res3 = Inl ReuseDetected"
    "rotate 40 ''F4'' \<lparr>family = 7, fingerprint = ''F2''\<rparr> tbl3 = (Inl ReuseDetected, tbl3)"
    by (simp_all add: row_def)
  have t1: "tbl1 = [advance 10 ''F1'' (row 1 7 ''F0''), row 2 7 ''G0'', row 3 9 ''H0'']"
    using r1 by (simp add: rotate_def exampleTable_def row_def advance_def)
  have t2: "tbl2 = [advance 20 ''F2'' (advance 10 ''F1'' (row 1 7 ''F0'')), row 2 7 ''G0'', row 3 9 ''H0'']"
    using r2 unfolding t1 by (simp add: rotate_def row_def advance_def)
  have t3: "map revoked_at tbl3 = [Some 30, Some 30, None]"
    using r3 unfolding t2
    by (auto simp: rotate_def row_def advance_def revoke_family_def revoke_row_def)
  have "rotate 10 ''F1'' \<lparr>family = 7, fingerprint = ''F0''\<rparr> exampleTable = (Inr (Advanced ''F1''), tbl1) \<and>
      rotate 20 ''F2'' \<lparr>family = 7, fingerprint = ''F1''\<rparr> tbl1 = (Inr (Advanced ''F2''), tbl2) \<and>
      rotate 30 ''F3'' \<lparr>family = 7, fingerprint = ''F0''\<rparr> tbl2 = (Inl ReuseDetected, tbl3) \<and>
      map revoked_at tbl3 = [Some 30, Some 30, None] \<and>
      rotate 40 ''F4'' \<lparr>family = 7, fingerprint = ''F2''\<rparr> tbl3 = (Inl ReuseDetected, tbl3)"
    using r1 r2 r3 c t3 by simp
  then have "\<exists>tbl1 tbl2 tbl3.
      rotate 10 ''F1'' \<lparr>family = 7, fingerprint = ''F0''\<rparr> exampleTable = (Inr (Advanced ''F1''), tbl1) \<and>
      rotate 20 ''F2'' \<lparr>family = 7, fingerprint = ''F1''\<rparr> tbl1 = (Inr (Advanced ''F2''), tbl2) \<and>
      rotate 30 ''F3'' \<lparr>family = 7, fingerprint = ''F0''\<rparr> tbl2 = (Inl ReuseDetected, tbl3) \<and>
      map revoked_at tbl3 = [Some 30, Some 30, None] \<and>
      rotate 40 ''F4'' \<lparr>family = 7, fingerprint = ''F2''\<rparr> tbl3 = (Inl ReuseDetected, tbl3)"
    by (intro exI)
  with sole show ?thesis
    by (rule conjI)
qed

text \<open>
  The grace window of section 8 on the example table: the first session
  advances from \<open>F0\<close> to \<open>F1\<close>; presenting \<open>F0\<close> again is honoured once, without
  advance or revocation; presenting it a second time is reuse.
\<close>

lemma grace_window_example:
  "(let tok = \<lparr>family = 7, fingerprint = ''F0''\<rparr>;
        (r1, t1) = rotate 10 ''F1'' tok exampleTable;
        (r2, t2) = rotate 20 ''F2'' tok t1;
        (r3, t3) = rotate 30 ''F3'' tok t2
    in r1 = Inr (Advanced ''F1'') \<and> r2 = Inr Retried \<and> r3 = Inl ReuseDetected \<and>
       map current_token_hash t2 = [''F1'', ''G0'', ''H0''] \<and>
       map revoked_at t2 = [None, None, None] \<and>
       map revoked_at t3 = [Some 30, Some 30, None])"
  by code_simp

section \<open>Properties of the OIDC relying party\<close>

lemma TrimRight_idem: "TrimRight (TrimRight s cs) cs = TrimRight s cs"
  by (simp add: TrimRight_def)

text \<open>
  C6 (as amended).  When the discovery response decodes to a document whose
  issuer, with trailing slashes removed, is non-empty and differs from the
  configured issuer with trailing slashes removed, \<open>discoverOIDC\<close> and
  \<open>NewRelyingPartyOIDC\<close> return an error: no relying party is constructed, so
  no authorization URL and no code exchange can be made with it.
\<close>

theorem C6_issuer_mismatch_is_fatal:
  assumes "httpGet (TrimRight issuer0 ''/'' @ ''/.well-known/openid-configuration'')
             = Response code status (Inr doc)"
    and "TrimRight (Issuer doc) ''/'' \<noteq> []"
    and "TrimRight (Issuer doc) ''/'' \<noteq> TrimRight issuer0 ''/''"
  shows "(\<exists>e. discoverOIDC httpGet (TrimRight issuer0 ''/'') = Inl e) \<and>
         (\<exists>e. NewRelyingPartyOIDC httpGet issuer0 cid secret redirect scopes = Inl e)"
proof -
  have d: "\<exists>e. discoverOIDC httpGet (TrimRight issuer0 ''/'') = Inl e"
    using assms by (simp add: discoverOIDC_def TrimRight_idem Let_def)
  then show ?thesis
    by (auto simp: NewRelyingPartyOIDC_def Let_def)
qed

theorem C6_witness:
  "(\<exists>e. NewRelyingPartyOIDC (\<lambda>url. Response 200 ''200 OK'' (Inr (goodDoc ''https://evil.example'')))
          ''https://idp.example'' ''client'' ''secret'' ''https://app.example/cb'' [''openid'']
        = Inl e)"
  using C6_issuer_mismatch_is_fatal
          [of "\<lambda>url. Response 200 ''200 OK'' (Inr (goodDoc ''https://evil.example''))"
              "''https://idp.example''" 200 "''200 OK''" "goodDoc ''https://evil.example''"
              "''client''" "''secret''" "''https://app.example/cb''" "[''openid'']"]
  by (simp add: goodDoc_def TrimRight_def)

text \<open>
  The claim as stated fails: a reported issuer that differs from the configured
  one only by a trailing slash, or an empty reported issuer, is accepted and the
  relying party is constructed.
\<close>

theorem C6_counterexample:
  "NewRelyingPartyOIDC (\<lambda>url. Response 200 ''200 OK'' (Inr (goodDoc ''https://idp.example/'')))
      ''https://idp.example'' ''client'' ''secret'' ''https://app.example/cb'' [''openid'']
     = Inr \<lparr>issuer = ''https://idp.example/'', clientID = ''client'',
            jwksURL = ''https://idp.example/keys'',
            oauthConfig = \<lparr>ClientID = ''client'', ClientSecret = ''secret'',
                            RedirectURL = ''https://app.example/cb'', Scopes = [''openid''],
                            AuthURL = ''https://idp.example/auth'',
                            TokenURL = ''https://idp.example/token''\<rparr>\<rparr> \<and>
   NewRelyingPartyOIDC (\<lambda>url. Response 200 ''200 OK'' (Inr (goodDoc '''')))
      ''https://idp.example'' ''client'' ''secret'' ''https://app.example/cb'' [''openid'']
     = Inr \<lparr>issuer = ''https://idp.example'', clientID = ''client'',
            jwksURL = ''https://idp.example/keys'',
            oauthConfig = \<lparr>ClientID = ''client'', ClientSecret = ''secret'',
                            RedirectURL = ''https://app.example/cb'', Scopes = [''openid''],
                            AuthURL = ''https://idp.example/auth'',
                            TokenURL = ''https://idp.example/token''\<rparr>\<rparr>"
  by (simp add: NewRelyingPartyOIDC_def discoverOIDC_def goodDoc_def TrimRight_def Let_def)

lemma ParseString_Inr:
  assumes "ParseString w raw keys iss aud = Inr t"
  shows "verifies w keys raw \<and> decode w raw = Some t \<and> timely w t \<and> Iss t = iss \<and> aud \<in> set (Aud t)"
proof -
  from assms have v: "verifies w keys raw"
    by (simp add: ParseString_def split: if_splits)
  with assms obtain t' where d: "decode w raw = Some t'"
    by (cases "decode w raw") (simp_all add: ParseString_def)
  from assms v d have "timely w t'" "Iss t' = iss" "aud \<in> set (Aud t')" "t' = t"
    by (simp_all add: ParseString_def split: if_splits)
  with v d show ?thesis by simp
qed

lemma VerifyIDToken_Inr:
  assumes "VerifyIDToken w raw (Some v) = Inr r"
  shows "\<exists>keys t. keySet v = Some keys \<and>
           ParseString w raw keys (vissuer v) (vclientID v) = Inr t \<and>
           r = Some (extractClaims t) \<and>
           (\<forall>fn. nonce v = Some fn \<longrightarrow> fn () \<noteq> [] \<longrightarrow> Get t ''nonce'' = Some (JString (fn ())))"
proof -
  from assms obtain keys where k: "keySet v = Some keys"
    by (cases "keySet v") (simp_all add: VerifyIDToken_def)
  with assms obtain t where p: "ParseString w raw keys (vissuer v) (vclientID v) = Inr t"
    by (cases "ParseString w raw keys (vissuer v) (vclientID v)") (simp_all add: VerifyIDToken_def)
  have r: "r = Some (extractClaims t)"
    using assms k p by (simp add: VerifyIDToken_def Let_def split: option.splits)
  have n: "\<forall>fn. nonce v = Some fn \<longrightarrow> fn () \<noteq> [] \<longrightarrow> Get t ''nonce'' = Some (JString (fn ()))"
  proof (intro allI impI)
    fix fn assume fn: "nonce v = Some fn" "fn () \<noteq> []"
    show "Get t ''nonce'' = Some (JString (fn ()))"
    proof (cases "Get t ''nonce''")
      case None
      with assms k p fn show ?thesis by (simp add: VerifyIDToken_def Let_def)
    next
      case (Some j)
      with assms k p fn show ?thesis
        by (cases j) (simp_all add: VerifyIDToken_def Let_def split: if_splits)
    qed
  qed
  from k p r n show ?thesis by blast
qed

lemma DefaultExchanger_Inr:
  assumes "DefaultExchanger w rp provider code verifier n = Inr c"
  shows "\<exists>tok raw keys idt.
           Exchange w (oauthConfig rp) code
             (if provider \<noteq> ''apple'' then [(''code_verifier'', verifier)] else []) = Inr tok \<and>
           Extra tok ''id_token'' = Some (JString raw) \<and> raw \<noteq> [] \<and>
           KeySetOf w rp = Inr keys \<and>
           VerifyIDToken w raw
             (Some (NewIDTokenVerifier (issuer rp) (clientID rp) (Some keys) [WithNonce (\<lambda>_. n)]))
             = Inr (Some idt) \<and>
           Claims.Subject c = GetSubject idt \<and> RawIDToken c = raw"
proof -
  let ?opts = "if provider \<noteq> ''apple'' then [(''code_verifier'', verifier)] else []"
  from assms obtain tok where e: "Exchange w (oauthConfig rp) code ?opts = Inr tok"
    by (cases "Exchange w (oauthConfig rp) code ?opts") (simp_all add: DefaultExchanger_def)
  from assms e obtain raw where x: "Extra tok ''id_token'' = Some (JString raw)" and raw: "raw \<noteq> []"
    by (simp add: DefaultExchanger_def split: option.splits jvalue.splits if_splits)
  from assms e x raw obtain keys where k: "KeySetOf w rp = Inr keys"
    by (cases "KeySetOf w rp") (simp_all add: DefaultExchanger_def)
  let ?v = "NewIDTokenVerifier (issuer rp) (clientID rp) (Some keys) [WithNonce (\<lambda>_. n)]"
  from assms e x raw k obtain idt where v: "VerifyIDToken w raw (Some ?v) = Inr (Some idt)"
    by (cases "VerifyIDToken w raw (Some ?v)")
       (simp_all add: DefaultExchanger_def Let_def split: option.splits)
  from assms e x raw k v have "Claims.Subject c = GetSubject idt" "RawIDToken c = raw"
    by (auto simp: DefaultExchanger_def Let_def)
  with e x raw k v show ?thesis by blast
qed

text \<open>
  C7 (as amended).  \<open>DefaultExchanger\<close> returns claims only after the exchange
  produced a non-empty ID token, the key set was fetched from the relying
  party's JWKS URL, the library verified the token's signature against that key
  set and validated its time claims, its issuer equals the relying party's
  issuer, its audiences contain the client id, and, when the nonce bound to the
  request is not empty, its nonce claim is that very string.  Every other
  outcome is an error and carries no identity.
\<close>

theorem C7_claims_only_from_verified_token:
  assumes "DefaultExchanger w rp provider code verifier n = Inr c"
  shows "\<exists>tok raw keys t.
           Exchange w (oauthConfig rp) code
             (if provider \<noteq> ''apple'' then [(''code_verifier'', verifier)] else []) = Inr tok \<and>
           Extra tok ''id_token'' = Some (JString raw) \<and> raw \<noteq> [] \<and>
           jwksURL rp \<noteq> [] \<and> Fetch w (jwksURL rp) = Inr keys \<and>
           verifies w keys raw \<and> decode w raw = Some t \<and> timely w t \<and>
           Iss t = issuer rp \<and> clientID rp \<in> set (Aud t) \<and>
           (n \<noteq> [] \<longrightarrow> Get t ''nonce'' = Some (JString n)) \<and>
           Claims.Subject c = Sub t \<and> RawIDToken c = raw"
proof -
  from DefaultExchanger_Inr [OF assms] obtain tok raw keys idt where
    e: "Exchange w (oauthConfig rp) code
          (if provider \<noteq> ''apple'' then [(''code_verifier'', verifier)] else []) = Inr tok"
    and x: "Extra tok ''id_token'' = Some (JString raw)" "raw \<noteq> []"
    and k: "KeySetOf w rp = Inr keys"
    and v: "VerifyIDToken w raw
              (Some (NewIDTokenVerifier (issuer rp) (clientID rp) (Some keys) [WithNonce (\<lambda>_. n)]))
              = Inr (Some idt)"
    and c: "Claims.Subject c = GetSubject idt" "RawIDToken c = raw"
    by blast
  have ver: "NewIDTokenVerifier (issuer rp) (clientID rp) (Some keys) [WithNonce (\<lambda>_. n)]
      = \<lparr>vissuer = issuer rp, vclientID = clientID rp, keySet = Some keys, nonce = Some (\<lambda>_. n)\<rparr>"
    by (simp add: NewIDTokenVerifier_def WithNonce_def)
  from VerifyIDToken_Inr [OF v] obtain t where
    p: "ParseString w raw keys (issuer rp) (clientID rp) = Inr t"
    and idt: "idt = extractClaims t"
    and nn: "n \<noteq> [] \<longrightarrow> Get t ''nonce'' = Some (JString n)"
    by (auto simp: ver)
  from k have url: "jwksURL rp \<noteq> []" "Fetch w (jwksURL rp) = Inr keys"
    by (auto simp: KeySetOf_def split: if_splits)
  have sub: "Claims.Subject c = Sub t"
    using c idt by (simp add: GetSubject_def extractClaims_def)
  from ParseString_Inr [OF p] e x url nn sub c show ?thesis
    by blast
qed

theorem C7_witness:
  "(\<exists>c. DefaultExchanger exampleWorld exampleRP ''google'' ''code'' ''pkce-verifier'' ''n-123'' = Inr c \<and>
        Claims.Subject c = ''alice'') \<and>
   Get exampleToken ''nonce'' = Some (JString ''n-123'') \<and>
   (\<exists>e. DefaultExchanger exampleWorld exampleRP ''google'' ''code'' ''pkce-verifier'' ''n-999'' = Inl e)"
proof -
  obtain c where c: "DefaultExchanger exampleWorld exampleRP ''google'' ''code'' ''pkce-verifier'' ''n-123'' = Inr c"
    by (simp add: DefaultExchanger_def Let_def KeySetOf_def VerifyIDToken_def ParseString_def
        NewIDTokenVerifier_def WithNonce_def exampleWorld_def exampleRP_def exampleToken_def)
  from C7_claims_only_from_verified_token [OF c]
  have "Claims.Subject c = ''alice''" "Get exampleToken ''nonce'' = Some (JString ''n-123'')"
    by (auto simp: exampleWorld_def exampleToken_def split: if_splits)
  moreover have "\<exists>e. DefaultExchanger exampleWorld exampleRP ''google'' ''code'' ''pkce-verifier'' ''n-999'' = Inl e"
    by (simp add: DefaultExchanger_def Let_def KeySetOf_def VerifyIDToken_def ParseString_def
        NewIDTokenVerifier_def WithNonce_def exampleWorld_def exampleRP_def exampleToken_def)
  ultimately show ?thesis
    using c by blast
qed

text \<open>
  The claim as stated fails when the nonce handed to \<open>DefaultExchanger\<close> is the
  empty string: the nonce claim is then not examined, and a token whose nonce is
  \<open>n-123\<close>, or which has no nonce at all, yields an identity.
\<close>

theorem C7_counterexample:
  "Get exampleToken ''nonce'' = Some (JString ''n-123'') \<and>
   DefaultExchanger exampleWorld exampleRP ''google'' ''code'' ''pkce-verifier'' []
     = Inr \<lparr>Claims.Subject = ''alice'', Email = Some ''a@idp.example'', EmailVerified = Some False,
            Name = None, PreferredUsername = None, RawIDToken = ''header.payload.signature''\<rparr> \<and>
   DefaultExchanger (exampleWorld\<lparr>decode := (\<lambda>raw. Some (exampleToken\<lparr>Get := Map.empty\<rparr>))\<rparr>)
       exampleRP ''google'' ''code'' ''pkce-verifier'' []
     = Inr \<lparr>Claims.Subject = ''alice'', Email = None, EmailVerified = Some False,
            Name = None, PreferredUsername = None, RawIDToken = ''header.payload.signature''\<rparr>"
  by (simp add: DefaultExchanger_def Let_def KeySetOf_def VerifyIDToken_def ParseString_def
      NewIDTokenVerifier_def WithNonce_def exampleWorld_def exampleRP_def exampleToken_def
      extractClaims_def GetSubject_def strptr_def boolptr_def)

section \<open>Properties of wallet sign-in messages\<close>

subsection \<open>Splitting and joining lines\<close>

lemma Split_not_Nil: "Split s \<noteq> []"
  by (induction s) (auto split: list.splits)

lemma Split_newline: "Split (a @ CHR 0x0A # b) = Split a @ Split b"
proof (induction a)
  case Nil
  show ?case by simp
next
  case (Cons c cs)
  obtain l ls where "Split cs = l # ls"
    using Split_not_Nil [of cs] by (cases "Split cs") auto
  with Cons show ?case by simp
qed

lemma Split_oneLine: "oneLine s \<Longrightarrow> Split s = [s]"
  by (induction s) (auto simp: oneLine_def)

lemma Split_lines:
  "\<forall>l\<in>set ls. oneLine l \<Longrightarrow> Split (a @ concat (map (\<lambda>l. CHR 0x0A # l) ls)) = Split a @ ls"
proof (induction ls arbitrary: a)
  case Nil
  show ?case by simp
next
  case (Cons l ls)
  have "Split ((a @ CHR 0x0A # l) @ concat (map (\<lambda>l. CHR 0x0A # l) ls)) = Split (a @ CHR 0x0A # l) @ ls"
    using Cons.prems by (intro Cons.IH) simp
  moreover have "Split (a @ CHR 0x0A # l) = Split a @ [l]"
    using Cons.prems by (simp add: Split_newline Split_oneLine)
  ultimately show ?case by simp
qed

lemma Join_Cons: "ls \<noteq> [] \<Longrightarrow> Join (l # ls) = l @ CHR 0x0A # Join ls"
  by (cases ls) simp_all

lemma Join_Split: "Join (Split s) = s"
proof (induction s)
  case Nil
  show ?case by simp
next
  case (Cons c cs)
  obtain l ls where s: "Split cs = l # ls"
    using Split_not_Nil [of cs] by (cases "Split cs") auto
  show ?case
  proof (cases "c = CHR 0x0A")
    case True
    with Cons show ?thesis by (simp add: Join_Cons Split_not_Nil)
  next
    case False
    with Cons s show ?thesis by (cases ls) simp_all
  qed
qed

lemma Join_snoc_blank: "ls \<noteq> [] \<Longrightarrow> Join (ls @ [[]]) = Join ls @ [CHR 0x0A]"
proof (induction ls)
  case Nil
  then show ?case by simp
next
  case (Cons l ls)
  then show ?case by (cases ls) (simp_all add: Join_Cons)
qed

subsection \<open>The lines of a constructed message\<close>

lemma optional_lines:
  "optional (CHR 0x0A # tag) p = concat (map (\<lambda>l. CHR 0x0A # l) (optLine tag p))"
  by (simp add: optional_def optLine_def split: option.splits)

lemma resources_lines:
  "(if length rs > 0 then (CHR 0x0A # ''Resources:'') @ concat (map (\<lambda>r. (CHR 0x0A # ''- '') @ r) rs) else [])
     = concat (map (\<lambda>l. CHR 0x0A # l) (resourceLines rs))"
  by (simp add: resourceLines_def o_def)

lemma ConstructMessage_fields:
  "ConstructMessage i =
     (Domain' i @ headerSuffix @ [CHR 0x0A] @ Address i @
      optional [CHR 0x0A, CHR 0x0A] (Statement i) @ [CHR 0x0A]) @
     concat (map (\<lambda>l. CHR 0x0A # l) (fieldLines i))"
  unfolding ConstructMessage_def optional_lines resources_lines fieldLines_def headerSuffix_def
  by simp

lemma oneLine_append [simp]: "oneLine (a @ b) \<longleftrightarrow> oneLine a \<and> oneLine b"
  by (auto simp: oneLine_def)

lemma oneLine_Cons [simp]: "oneLine (c # s) \<longleftrightarrow> c \<noteq> CHR 0x0A \<and> oneLine s"
  by (auto simp: oneLine_def)

lemma oneLine_Nil [simp]: "oneLine []"
  by (simp add: oneLine_def)

lemma optLine_oneLine:
  "oneLine tag \<Longrightarrow> optionalLine p \<Longrightarrow> list_all oneLine (optLine tag p)"
  by (auto simp: optLine_def optionalLine_def split: option.splits if_splits)

lemma resourceLines_oneLine:
  "\<forall>r\<in>set rs. oneLine r \<Longrightarrow> list_all oneLine (resourceLines rs)"
  by (auto simp: resourceLines_def list_all_iff)

lemma fieldLines_oneLine:
  assumes "parseable i"
  shows "\<forall>l\<in>set (fieldLines i). oneLine l"
proof -
  have "list_all oneLine (optLine ''URI: '' (URI i))"
    "list_all oneLine (optLine ''Version: '' (Version i))"
    "list_all oneLine (optLine ''Chain ID: '' (ChainID i))"
    "list_all oneLine (optLine ''Expiration Time: '' (ExpirationTime i))"
    "list_all oneLine (optLine ''Not Before: '' (NotBefore i))"
    "list_all oneLine (optLine ''Request ID: '' (RequestID i))"
    "list_all oneLine (resourceLines (Resources i))"
    using assms by (simp_all add: parseable_def optLine_oneLine resourceLines_oneLine)
  moreover have "oneLine (''Nonce: '' @ Nonce i)" "oneLine (''Issued At: '' @ IssuedAt i)"
    using assms by (simp_all add: parseable_def)
  ultimately have "list_all oneLine (fieldLines i)"
    unfolding fieldLines_def list_all_append by simp
  then show ?thesis
    by (simp add: list_all_iff)
qed

lemma Split_ConstructMessage:
  assumes "parseable i"
  shows "Split (ConstructMessage i) =
     [Domain' i @ headerSuffix, Address i] @ statementBlock (Statement i) @ [[]] @ fieldLines i"
proof -
  have d: "Split (Domain' i @ headerSuffix) = [Domain' i @ headerSuffix]"
    using assms by (intro Split_oneLine) (simp add: parseable_def headerSuffix_def oneLine_def)
  have a: "Split (Address i) = [Address i]"
    using assms by (intro Split_oneLine) (simp add: parseable_def)
  have s: "Split (Address i @ optional [CHR 0x0A, CHR 0x0A] (Statement i) @ [CHR 0x0A])
      = [Address i] @ statementBlock (Statement i) @ [[]]"
  proof (cases "Statement i")
    case None
    then show ?thesis
      using Split_newline [of "Address i" "[]"] a by (simp add: optional_def statementBlock_def)
  next
    case (Some st)
    with assms have ne: "st \<noteq> []"
      by (simp add: parseable_def statementOK_def)
    have "Split (Address i @ CHR 0x0A # (CHR 0x0A # st @ [CHR 0x0A]))
        = Split (Address i) @ Split (CHR 0x0A # st @ [CHR 0x0A])"
      by (rule Split_newline)
    moreover have "Split (st @ [CHR 0x0A]) = Split st @ [[]]"
      using Split_newline [of st "[]"] by simp
    ultimately show ?thesis
      using Some ne a by (simp add: optional_def statementBlock_def)
  qed
  let ?P = "Domain' i @ headerSuffix @ [CHR 0x0A] @ Address i @
      optional [CHR 0x0A, CHR 0x0A] (Statement i) @ [CHR 0x0A]"
  have "Split ((Domain' i @ headerSuffix) @ CHR 0x0A #
          (Address i @ optional [CHR 0x0A, CHR 0x0A] (Statement i) @ [CHR 0x0A]))
      = [Domain' i @ headerSuffix, Address i] @ statementBlock (Statement i) @ [[]]"
    unfolding Split_newline d s by simp
  then have P: "Split ?P = [Domain' i @ headerSuffix, Address i] @ statementBlock (Statement i) @ [[]]"
    by simp
  have "Split (?P @ concat (map (\<lambda>l. CHR 0x0A # l) (fieldLines i))) = Split ?P @ fieldLines i"
    by (rule Split_lines [OF fieldLines_oneLine [OF assms]])
  then show ?thesis
    unfolding ConstructMessage_fields P by simp
qed

subsection \<open>Stripping space runes\<close>

lemma stripLeading_drop: "\<exists>k. stripLeading rs s = drop k s"
proof (induction rs s rule: stripLeading.induct)
  case (1 rs)
  show ?case by simp
next
  case (2 rs c cs)
  show ?case
  proof (cases "find (\<lambda>r. prefix r (c # cs)) rs")
    case None
    then have "stripLeading rs (c # cs) = drop 0 (c # cs)" by simp
    then show ?thesis by blast
  next
    case (Some r)
    with 2 obtain k where "stripLeading rs (drop (length r - 1) cs) = drop k (drop (length r - 1) cs)"
      by blast
    with Some have "stripLeading rs (c # cs) = drop (Suc (length r - 1 + k)) (c # cs)"
      by (simp add: add.commute)
    then show ?thesis by blast
  qed
qed

lemma stripLeading_length: "length (stripLeading rs s) \<le> length s"
  using stripLeading_drop [of rs s] by auto

lemma stripLeading_none:
  "find (\<lambda>r. prefix r s) rs = None \<Longrightarrow> stripLeading rs s = s"
  by (cases s) simp_all

lemma stripLeading_fixed:
  assumes "stripLeading rs s = s" "s \<noteq> []" "[] \<notin> set rs"
  shows "find (\<lambda>r. prefix r s) rs = None"
proof (rule ccontr)
  assume "find (\<lambda>r. prefix r s) rs \<noteq> None"
  then obtain r where r: "find (\<lambda>r. prefix r s) rs = Some r" by auto
  then have "r \<in> set rs" "prefix r s"
    by (auto simp: find_Some_iff)
  with assms(3) have len: "0 < length r" by auto
  obtain c cs where s: "s = c # cs"
    using assms(2) by (cases s) auto
  from r s have "stripLeading rs s = stripLeading rs (drop (length r - 1) cs)"
    by simp
  then have "length (stripLeading rs s) \<le> length (drop (length r - 1) cs)"
    using stripLeading_length [of rs "drop (length r - 1) cs"] by simp
  also have "\<dots> < length s"
    using s by simp
  finally show False
    using assms(1) by simp
qed

lemma stripLeading_stops:
  assumes "x \<notin> set (concat rs)" "[] \<notin> set rs"
  shows "\<exists>k. stripLeading rs (as @ x # bs) = drop k as @ x # bs"
proof (induction "length as" arbitrary: as rule: less_induct)
  case less
  show ?case
  proof (cases "find (\<lambda>r. prefix r (as @ x # bs)) rs")
    case None
    then have "stripLeading rs (as @ x # bs) = drop 0 as @ x # bs"
      by (simp add: stripLeading_none)
    then show ?thesis by blast
  next
    case (Some r)
    then have r: "r \<in> set rs" "prefix r (as @ x # bs)"
      by (auto simp: find_Some_iff)
    with assms have rx: "x \<notin> set r" and rne: "r \<noteq> []" by auto
    have "prefix r as"
    proof (rule ccontr)
      assume "\<not> prefix r as"
      with r(2) have "prefix (as @ [x]) r"
        by (metis append.assoc append_Cons append_Nil prefix_append prefix_order.order_refl prefixeq_butlast
            prefix_snoc same_prefix_prefix not_prefix_cases prefix_same_cases)
      then have "x \<in> set r"
        by (auto simp: prefix_def)
      with rx show False by simp
    qed
    then obtain as' where as: "as = r @ as'"
      by (auto simp: prefix_def)
    with rne obtain c cs where ccs: "as @ x # bs = c # cs" "drop (length r - 1) cs = as' @ x # bs"
      by (cases r) auto
    have "length as' < length as"
      using as rne by simp
    from less [OF this] obtain k where "stripLeading rs (as' @ x # bs) = drop k as' @ x # bs"
      by blast
    moreover have "stripLeading rs (as @ x # bs) = stripLeading rs (as' @ x # bs)"
      using Some ccs by simp
    ultimately have "stripLeading rs (as @ x # bs) = drop (length r + k) as @ x # bs"
      using as by (simp add: add.commute)
    then show ?thesis by blast
  qed
qed

lemma stripLeading_consumed:
  "stripLeading rs s = [] \<Longrightarrow> s \<noteq> [] \<Longrightarrow> \<exists>r\<in>set rs. suffix r s"
proof (induction rs s rule: stripLeading.induct)
  case (1 rs)
  then show ?case by simp
next
  case (2 rs c cs)
  show ?case
  proof (cases "find (\<lambda>r. prefix r (c # cs)) rs")
    case None
    with 2 show ?thesis by simp
  next
    case (Some r)
    then have r: "r \<in> set rs" "prefix r (c # cs)"
      by (auto simp: find_Some_iff)
    let ?rest = "drop (length r - 1) cs"
    from Some "2.prems" have e: "stripLeading rs ?rest = []"
      by simp
    show ?thesis
    proof (cases "?rest = []")
      case True
      show ?thesis
      proof (cases "r = []")
        case True
        with r(1) have "[] \<in> set rs" by simp
        moreover have "suffix [] (c # cs)" by simp
        ultimately show ?thesis by blast
      next
        case False
        then have "drop (length r) (c # cs) = ?rest"
          by (cases r) simp_all
        with True have "length (c # cs) \<le> length r"
          by simp
        moreover from r(2) obtain zs where zs: "c # cs = r @ zs"
          by (auto simp: prefix_def)
        ultimately have "zs = []"
          by (metis append_eq_conv_conj drop_all length_append length_drop)
        with zs have "r = c # cs"
          by simp
        with r(1) show ?thesis by auto
      qed
    next
      case False
      from "2.IH" [OF Some e False] obtain r' where "r' \<in> set rs" "suffix r' ?rest"
        by blast
      moreover have "suffix ?rest (c # cs)"
        by (meson suffix_ConsI suffix_drop)
      ultimately show ?thesis
        by (meson suffix_order.order_trans)
    qed
  qed
qed

subsection \<open>TrimSpace on the lines of a message\<close>

lemma runes_nonempty: "[] \<notin> set spaceRunes" "[] \<notin> set (map rev spaceRunes)"
  by (simp_all add: spaceRunes_def)

lemma rev_runes_bytes: "set (concat (map rev rs)) = set (concat rs)"
  by (induction rs) auto

lemma newline_rune: "r \<in> set spaceRunes \<Longrightarrow> CHR 0x0A \<in> set r \<Longrightarrow> r = [CHR 0x0A]"
  by (auto simp: spaceRunes_def)

lemma newline_is_rune: "[CHR 0x0A] \<in> set spaceRunes"
  by (simp add: spaceRunes_def)

lemma find_rev_newline:
  "find (\<lambda>r. prefix r (CHR 0x0A # t)) (map rev spaceRunes) = Some [CHR 0x0A]"
  by (simp add: spaceRunes_def)

lemma TrimSpace_Nil [simp]: "TrimSpace [] = []"
  by (simp add: TrimSpace_def)

lemma TrimSpace_tag:
  assumes x: "x \<notin> set (concat spaceRunes)" and y: "y \<notin> set (concat spaceRunes)"
  shows "prefix ((x # p) @ [y]) (TrimSpace ((x # p) @ y # v))"
proof -
  from stripLeading_stops [OF x runes_nonempty(1), of "[]" "p @ y # v"]
  have lead: "stripLeading spaceRunes ((x # p) @ y # v) = (x # p) @ y # v"
    by simp
  have y': "y \<notin> set (concat (map rev spaceRunes))"
    unfolding rev_runes_bytes by (rule y)
  from stripLeading_stops [OF y' runes_nonempty(2), of "rev v" "rev (x # p)"]
  obtain k where "stripLeading (map rev spaceRunes) (rev v @ y # rev (x # p)) = drop k (rev v) @ y # rev (x # p)"
    by blast
  then have "TrimSpace ((x # p) @ y # v) = ((x # p) @ [y]) @ rev (drop k (rev v))"
    unfolding TrimSpace_def lead by simp
  then show ?thesis
    by (simp only: prefixI)
qed

lemma TrimSpace_fixed:
  assumes "TrimSpace s = s"
  shows "stripLeading spaceRunes s = s" and "stripLeading (map rev spaceRunes) (rev s) = rev s"
proof -
  let ?a = "stripLeading spaceRunes s"
  let ?b = "stripLeading (map rev spaceRunes) (rev ?a)"
  have sb: "s = rev ?b"
    using assms by (simp add: TrimSpace_def)
  then have "length s = length (rev ?b)"
    by simp
  then have "length s = length ?b"
    by simp
  also have "\<dots> \<le> length ?a"
    using stripLeading_length [of "map rev spaceRunes" "rev ?a"] by simp
  finally have le: "length s \<le> length ?a" .
  obtain k where k: "?a = drop k s"
    using stripLeading_drop by blast
  from le have "length s \<le> length s - k"
    unfolding k by simp
  then have "k = 0 \<or> s = []"
    by (cases s) auto
  then show a: "?a = s"
    unfolding k by auto
  from sb have "rev s = rev (rev ?b)"
    by (rule arg_cong)
  then have "rev s = ?b"
    by (simp only: rev_rev_ident)
  then show "stripLeading (map rev spaceRunes) (rev s) = rev s"
    unfolding a by (rule sym)
qed

lemma no_leading_rune:
  assumes "TrimSpace s = s" "s \<noteq> []" "r \<in> set spaceRunes"
  shows "\<not> prefix r s"
proof -
  have "find (\<lambda>r. prefix r s) spaceRunes = None"
    using TrimSpace_fixed(1) [OF assms(1)] assms(2) runes_nonempty(1) by (rule stripLeading_fixed)
  with assms(3) show ?thesis
    by (simp add: find_None_iff)
qed

lemma Split_hd: "\<exists>rest. s = hd (Split s) @ rest \<and> (rest = [] \<or> hd rest = CHR 0x0A)"
proof (induction s)
  case Nil
  show ?case by simp
next
  case (Cons c cs)
  obtain l ls where l: "Split cs = l # ls"
    using Split_not_Nil [of cs] by (cases "Split cs") auto
  show ?case
  proof (cases "c = CHR 0x0A")
    case True
    then have "c # cs = hd (Split (c # cs)) @ (c # cs) \<and> hd (c # cs) = CHR 0x0A"
      by simp
    then show ?thesis by blast
  next
    case False
    from Cons obtain rest where "cs = hd (Split cs) @ rest" "rest = [] \<or> hd rest = CHR 0x0A"
      by blast
    with False l have "c # cs = hd (Split (c # cs)) @ rest \<and> (rest = [] \<or> hd rest = CHR 0x0A)"
      by simp
    then show ?thesis by blast
  qed
qed

lemma statement_first_line:
  assumes fixed: "TrimSpace s = s" and ne: "s \<noteq> []"
  shows "TrimSpace (hd (Split s)) \<noteq> []"
proof
  let ?l = "hd (Split s)"
  assume blank: "TrimSpace ?l = []"
  obtain rest where rest: "s = ?l @ rest" "rest = [] \<or> hd rest = CHR 0x0A"
    using Split_hd by blast
  have no: "\<And>r. r \<in> set spaceRunes \<Longrightarrow> \<not> prefix r ?l"
    using no_leading_rune [OF fixed ne] rest(1) by (metis prefix_append prefix_order.order_refl
        prefix_order.trans prefixI)
  show False
  proof (cases "?l = []")
    case True
    with rest ne have "prefix [CHR 0x0A] s"
      by (cases rest) auto
    with no_leading_rune [OF fixed ne newline_is_rune] show False by simp
  next
    case False
    have "find (\<lambda>r. prefix r ?l) spaceRunes = None"
      using no by (simp add: find_None_iff)
    then have lead: "stripLeading spaceRunes ?l = ?l"
      by (rule stripLeading_none)
    from blank have "stripLeading (map rev spaceRunes) (rev ?l) = []"
      unfolding TrimSpace_def lead by simp
    with False obtain r' where "r' \<in> set (map rev spaceRunes)" "suffix r' (rev ?l)"
      using stripLeading_consumed [of "map rev spaceRunes" "rev ?l"] by auto
    then obtain r where "r \<in> set spaceRunes" "suffix (rev r) (rev ?l)"
      by auto
    then have "r \<in> set spaceRunes" "prefix r ?l"
      by (simp_all add: suffix_to_prefix)
    with no show False by blast
  qed
qed

lemma statement_newline:
  assumes fixed: "TrimSpace s = s" and ne: "s \<noteq> []"
  shows "TrimSpace (s @ [CHR 0x0A]) = s"
proof -
  have "find (\<lambda>r. prefix r (s @ [CHR 0x0A])) spaceRunes = None"
  proof -
    have "\<not> prefix r (s @ [CHR 0x0A])" if r: "r \<in> set spaceRunes" for r
    proof
      assume "prefix r (s @ [CHR 0x0A])"
      then consider "r = s @ [CHR 0x0A]" | "prefix r s"
        by (auto simp: prefix_snoc)
      then show False
      proof cases
        case 1
        with newline_rune [OF r] ne show False by simp
      next
        case 2
        with no_leading_rune [OF fixed ne r] show False by simp
      qed
    qed
    then show ?thesis
      by (simp add: find_None_iff)
  qed
  then have lead: "stripLeading spaceRunes (s @ [CHR 0x0A]) = s @ [CHR 0x0A]"
    by (rule stripLeading_none)
  have "stripLeading (map rev spaceRunes) (CHR 0x0A # rev s) = stripLeading (map rev spaceRunes) (rev s)"
    by (simp add: find_rev_newline)
  then show ?thesis
    unfolding TrimSpace_def lead using TrimSpace_fixed(2) [OF fixed] by simp
qed

subsection \<open>Parsing the lines of a constructed message\<close>

lemma headerMatch_header:
  "d \<noteq> [] \<Longrightarrow> oneLine d \<Longrightarrow> headerMatch (d @ headerSuffix) = Some d"
  by (simp add: headerMatch_def oneLine_def suffix_def)

lemma findFieldsStart_skip:
  "\<forall>l\<in>set xs. \<not> isFieldLine (TrimSpace l) \<Longrightarrow> isFieldLine (TrimSpace y) \<Longrightarrow>
     findFieldsStart n (xs @ y # ys) = int (n + length xs)"
  by (induction xs arbitrary: n) simp_all

lemma tag_bytes:
  "CHR ''U'' \<notin> set (concat spaceRunes)" "CHR ''V'' \<notin> set (concat spaceRunes)"
  "CHR ''C'' \<notin> set (concat spaceRunes)" "CHR ''N'' \<notin> set (concat spaceRunes)"
  "CHR '':'' \<notin> set (concat spaceRunes)"
  by (simp_all add: spaceRunes_def)

lemma tag_lines_are_field_lines:
  "isFieldLine (TrimSpace (''URI: '' @ v))" "isFieldLine (TrimSpace (''Version: '' @ v))"
  "isFieldLine (TrimSpace (''Chain ID: '' @ v))" "isFieldLine (TrimSpace (''Nonce: '' @ v))"
proof -
  from TrimSpace_tag [OF tag_bytes(1) tag_bytes(5), of "''RI''" "CHR '' '' # v"]
  show "isFieldLine (TrimSpace (''URI: '' @ v))"
    by (simp add: isFieldLine_def HasPrefix_def)
  from TrimSpace_tag [OF tag_bytes(2) tag_bytes(5), of "''ersion''" "CHR '' '' # v"]
  show "isFieldLine (TrimSpace (''Version: '' @ v))"
    by (simp add: isFieldLine_def HasPrefix_def)
  from TrimSpace_tag [OF tag_bytes(3) tag_bytes(5), of "''hain ID''" "CHR '' '' # v"]
  show "isFieldLine (TrimSpace (''Chain ID: '' @ v))"
    by (simp add: isFieldLine_def HasPrefix_def)
  from TrimSpace_tag [OF tag_bytes(4) tag_bytes(5), of "''once''" "CHR '' '' # v"]
  show "isFieldLine (TrimSpace (''Nonce: '' @ v))"
    by (simp add: isFieldLine_def HasPrefix_def)
qed

lemma optLine_cases:
  "optionalLine p \<Longrightarrow> optLine tag p = (case p of None \<Rightarrow> [] | Some v \<Rightarrow> [tag @ v])"
  by (simp add: optLine_def optionalLine_def split: option.splits)

lemma fieldLines_head:
  assumes "parseable i"
  shows "\<exists>y ys. fieldLines i = y # ys \<and> isFieldLine (TrimSpace y)"
proof -
  have o: "optionalLine (URI i)" "optionalLine (Version i)" "optionalLine (ChainID i)"
    using assms by (simp_all add: parseable_def)
  show ?thesis
  proof (cases "URI i")
    case (Some v)
    then show ?thesis
      unfolding fieldLines_def optLine_cases [OF o(1)] using tag_lines_are_field_lines(1) by simp
  next
    case u: None
    show ?thesis
    proof (cases "Version i")
      case (Some v)
      then show ?thesis
        unfolding fieldLines_def optLine_cases [OF o(1)] optLine_cases [OF o(2)]
        using u tag_lines_are_field_lines(2) by simp
    next
      case ve: None
      show ?thesis
      proof (cases "ChainID i")
        case (Some v)
        then show ?thesis
          unfolding fieldLines_def optLine_cases [OF o(1)] optLine_cases [OF o(2)] optLine_cases [OF o(3)]
          using u ve tag_lines_are_field_lines(3) by simp
      next
        case None
        then show ?thesis
          unfolding fieldLines_def optLine_cases [OF o(1)] optLine_cases [OF o(2)] optLine_cases [OF o(3)]
          using u ve tag_lines_are_field_lines(4) by simp
      qed
    qed
  qed
qed

lemma collect_acc: "acc \<noteq> [] \<Longrightarrow> collectStatement acc xs = acc @ xs"
  by (induction xs arbitrary: acc) simp_all

lemma collect_first: "TrimSpace x \<noteq> [] \<Longrightarrow> collectStatement [] (x # xs) = x # xs"
  by (simp add: collect_acc)

lemma collect_block:
  assumes "statementOK p"
  shows "collectStatement [] (statementBlock p @ [[]]) = (case p of None \<Rightarrow> [] | Some s \<Rightarrow> Split s @ [[]])"
proof (cases p)
  case None
  then show ?thesis by (simp add: statementBlock_def)
next
  case (Some s)
  with assms have s: "s \<noteq> []" "TrimSpace s = s"
    by (simp_all add: statementOK_def)
  obtain l ls where l: "Split s = l # ls"
    using Split_not_Nil [of s] by (cases "Split s") auto
  with statement_first_line [OF s(2) s(1)] have "TrimSpace l \<noteq> []"
    by simp
  then have "collectStatement [] (l # ls @ [[]]) = l # ls @ [[]]"
    by (rule collect_first)
  with Some l show ?thesis
    by (simp add: statementBlock_def)
qed

lemma parseLine_tags:
  assumes "\<not> inResources st"
  shows "parseLine (''URI: '' @ v) st = st\<lparr>input := (input st)\<lparr>URI := Some v\<rparr>\<rparr>"
    and "parseLine (''Version: '' @ v) st = st\<lparr>input := (input st)\<lparr>Version := Some v\<rparr>\<rparr>"
    and "parseLine (''Chain ID: '' @ v) st = st\<lparr>input := (input st)\<lparr>ChainID := Some v\<rparr>\<rparr>"
    and "parseLine (''Nonce: '' @ v) st = st\<lparr>input := (input st)\<lparr>Nonce := v\<rparr>\<rparr>"
    and "parseLine (''Issued At: '' @ v) st = st\<lparr>input := (input st)\<lparr>IssuedAt := v\<rparr>\<rparr>"
    and "parseLine (''Expiration Time: '' @ v) st = st\<lparr>input := (input st)\<lparr>ExpirationTime := Some v\<rparr>\<rparr>"
    and "parseLine (''Not Before: '' @ v) st = st\<lparr>input := (input st)\<lparr>NotBefore := Some v\<rparr>\<rparr>"
    and "parseLine (''Request ID: '' @ v) st = st\<lparr>input := (input st)\<lparr>RequestID := Some v\<rparr>\<rparr>"
  using assms by (simp_all add: parseLine_def HasPrefix_def TrimPrefix_def)

lemma fold_URI:
  assumes "optionalLine p" "\<not> inResources st" "URI (input st) = None"
  shows "fold parseLine (optLine ''URI: '' p) st = st\<lparr>input := (input st)\<lparr>URI := p\<rparr>\<rparr>"
proof (cases p)
  case None
  have "(input st)\<lparr>URI := None\<rparr> = input st"
    using assms(3) by (cases "input st") simp
  with None show ?thesis
    by (simp add: optLine_def)
next
  case (Some v)
  with assms(1) have "optLine ''URI: '' p = [''URI: '' @ v]"
    by (simp add: optLine_cases)
  with Some show ?thesis
    using parseLine_tags(1) [OF assms(2), of v] by simp
qed

lemma fold_Version:
  assumes "optionalLine p" "\<not> inResources st" "Version (input st) = None"
  shows "fold parseLine (optLine ''Version: '' p) st = st\<lparr>input := (input st)\<lparr>Version := p\<rparr>\<rparr>"
proof (cases p)
  case None
  have "(input st)\<lparr>Version := None\<rparr> = input st"
    using assms(3) by (cases "input st") simp
  with None show ?thesis
    by (simp add: optLine_def)
next
  case (Some v)
  with assms(1) have "optLine ''Version: '' p = [''Version: '' @ v]"
    by (simp add: optLine_cases)
  with Some show ?thesis
    using parseLine_tags(2) [OF assms(2), of v] by simp
qed

lemma fold_ChainID:
  assumes "optionalLine p" "\<not> inResources st" "ChainID (input st) = None"
  shows "fold parseLine (optLine ''Chain ID: '' p) st = st\<lparr>input := (input st)\<lparr>ChainID := p\<rparr>\<rparr>"
proof (cases p)
  case None
  have "(input st)\<lparr>ChainID := None\<rparr> = input st"
    using assms(3) by (cases "input st") simp
  with None show ?thesis
    by (simp add: optLine_def)
next
  case (Some v)
  with assms(1) have "optLine ''Chain ID: '' p = [''Chain ID: '' @ v]"
    by (simp add: optLine_cases)
  with Some show ?thesis
    using parseLine_tags(3) [OF assms(2), of v] by simp
qed

lemma fold_ExpirationTime:
  assumes "optionalLine p" "\<not> inResources st" "ExpirationTime (input st) = None"
  shows "fold parseLine (optLine ''Expiration Time: '' p) st = st\<lparr>input := (input st)\<lparr>ExpirationTime := p\<rparr>\<rparr>"
proof (cases p)
  case None
  have "(input st)\<lparr>ExpirationTime := None\<rparr> = input st"
    using assms(3) by (cases "input st") simp
  with None show ?thesis
    by (simp add: optLine_def)
next
  case (Some v)
  with assms(1) have "optLine ''Expiration Time: '' p = [''Expiration Time: '' @ v]"
    by (simp add: optLine_cases)
  with Some show ?thesis
    using parseLine_tags(6) [OF assms(2), of v] by simp
qed

lemma fold_NotBefore:
  assumes "optionalLine p" "\<not> inResources st" "NotBefore (input st) = None"
  shows "fold parseLine (optLine ''Not Before: '' p) st = st\<lparr>input := (input st)\<lparr>NotBefore := p\<rparr>\<rparr>"
proof (cases p)
  case None
  have "(input st)\<lparr>NotBefore := None\<rparr> = input st"
    using assms(3) by (cases "input st") simp
  with None show ?thesis
    by (simp add: optLine_def)
next
  case (Some v)
  with assms(1) have "optLine ''Not Before: '' p = [''Not Before: '' @ v]"
    by (simp add: optLine_cases)
  with Some show ?thesis
    using parseLine_tags(7) [OF assms(2), of v] by simp
qed

lemma fold_RequestID:
  assumes "optionalLine p" "\<not> inResources st" "RequestID (input st) = None"
  shows "fold parseLine (optLine ''Request ID: '' p) st = st\<lparr>input := (input st)\<lparr>RequestID := p\<rparr>\<rparr>"
proof (cases p)
  case None
  have "(input st)\<lparr>RequestID := None\<rparr> = input st"
    using assms(3) by (cases "input st") simp
  with None show ?thesis
    by (simp add: optLine_def)
next
  case (Some v)
  with assms(1) have "optLine ''Request ID: '' p = [''Request ID: '' @ v]"
    by (simp add: optLine_cases)
  with Some show ?thesis
    using parseLine_tags(8) [OF assms(2), of v] by simp
qed

lemma fold_resource_items:
  "inResources st \<Longrightarrow>
     fold parseLine (map (\<lambda>r. ''- '' @ r) rs) st = st\<lparr>resources := resources st @ rs\<rparr>"
proof (induction rs arbitrary: st)
  case Nil
  show ?case by simp
next
  case (Cons r rs)
  have step: "parseLine (''- '' @ r) st = st\<lparr>resources := resources st @ [r]\<rparr>"
    using Cons.prems by (simp add: parseLine_def HasPrefix_def TrimPrefix_def)
  have "inResources (st\<lparr>resources := resources st @ [r]\<rparr>)"
    using Cons.prems by simp
  from Cons.IH [OF this] step show ?case
    by simp
qed

lemma fold_resourceLines:
  assumes "\<not> inResources st"
  shows "fold parseLine (resourceLines rs) st =
     (if rs = [] then st else st\<lparr>inResources := True, resources := resources st @ rs\<rparr>)"
proof (cases "rs = []")
  case True
  then show ?thesis by (simp add: resourceLines_def)
next
  case False
  have head: "parseLine ''Resources:'' st = st\<lparr>inResources := True\<rparr>"
    by (simp add: parseLine_def HasPrefix_def)
  have eta: "(@) ''- '' = (\<lambda>r. CHR ''-'' # CHR '' '' # r)"
    by (rule ext) simp
  have "fold parseLine (resourceLines rs) st
      = fold parseLine (map (\<lambda>r. ''- '' @ r) rs) (parseLine ''Resources:'' st)"
    using False by (simp add: resourceLines_def eta)
  also have "\<dots> = fold parseLine (map (\<lambda>r. ''- '' @ r) rs) (st\<lparr>inResources := True\<rparr>)"
    by (simp only: head)
  also have "\<dots> = st\<lparr>inResources := True\<rparr>\<lparr>resources := resources (st\<lparr>inResources := True\<rparr>) @ rs\<rparr>"
    by (rule fold_resource_items) simp
  finally show ?thesis
    using False by simp
qed

lemma fold_fieldLines:
  assumes "parseable i"
  shows "fold parseLine (fieldLines i)
           \<lparr>input = emptyInput\<lparr>Domain' := D, Address := A, Statement := S\<rparr>,
            inResources = False, resources = []\<rparr>
         = \<lparr>input = \<lparr>Domain' = D, Address = A, Statement = S, URI = URI i, Version = Version i,
                      ChainID = ChainID i, Nonce = Nonce i, IssuedAt = IssuedAt i,
                      ExpirationTime = ExpirationTime i, NotBefore = NotBefore i,
                      RequestID = RequestID i, Resources = []\<rparr>,
            inResources = (Resources i \<noteq> []), resources = Resources i\<rparr>"
proof -
  have o: "optionalLine (URI i)" "optionalLine (Version i)" "optionalLine (ChainID i)"
    "optionalLine (ExpirationTime i)" "optionalLine (NotBefore i)" "optionalLine (RequestID i)"
    using assms by (simp_all add: parseable_def)
  let ?s0 = "\<lparr>input = emptyInput\<lparr>Domain' := D, Address := A, Statement := S\<rparr>,
              inResources = False, resources = []\<rparr>"
  define s1 where "s1 = fold parseLine (optLine ''URI: '' (URI i)) ?s0"
  define s2 where "s2 = fold parseLine (optLine ''Version: '' (Version i)) s1"
  define s3 where "s3 = fold parseLine (optLine ''Chain ID: '' (ChainID i)) s2"
  define s4 where "s4 = fold parseLine [''Nonce: '' @ Nonce i, ''Issued At: '' @ IssuedAt i] s3"
  define s5 where "s5 = fold parseLine (optLine ''Expiration Time: '' (ExpirationTime i)) s4"
  define s6 where "s6 = fold parseLine (optLine ''Not Before: '' (NotBefore i)) s5"
  define s7 where "s7 = fold parseLine (optLine ''Request ID: '' (RequestID i)) s6"
  have e1: "s1 = \<lparr>input = \<lparr>Domain' = D, Address = A, Statement = S, URI = URI i, Version = None,
                      ChainID = None, Nonce = [], IssuedAt = [], ExpirationTime = None,
                      NotBefore = None, RequestID = None, Resources = []\<rparr>,
                  inResources = False, resources = []\<rparr>"
    unfolding s1_def by (subst fold_URI [OF o(1)]) (simp_all add: emptyInput_def)
  have e2: "s2 = \<lparr>input = \<lparr>Domain' = D, Address = A, Statement = S, URI = URI i, Version = Version i,
                      ChainID = None, Nonce = [], IssuedAt = [], ExpirationTime = None,
                      NotBefore = None, RequestID = None, Resources = []\<rparr>,
                  inResources = False, resources = []\<rparr>"
    unfolding s2_def e1 by (subst fold_Version [OF o(2)]) simp_all
  have e3: "s3 = \<lparr>input = \<lparr>Domain' = D, Address = A, Statement = S, URI = URI i, Version = Version i,
                      ChainID = ChainID i, Nonce = [], IssuedAt = [], ExpirationTime = None,
                      NotBefore = None, RequestID = None, Resources = []\<rparr>,
                  inResources = False, resources = []\<rparr>"
    unfolding s3_def e2 by (subst fold_ChainID [OF o(3)]) simp_all
  have e4: "s4 = \<lparr>input = \<lparr>Domain' = D, Address = A, Statement = S, URI = URI i, Version = Version i,
                      ChainID = ChainID i, Nonce = Nonce i, IssuedAt = IssuedAt i, ExpirationTime = None,
                      NotBefore = None, RequestID = None, Resources = []\<rparr>,
                  inResources = False, resources = []\<rparr>"
    unfolding s4_def e3 by (simp add: parseLine_tags(4,5) [simplified])
  have e5: "s5 = \<lparr>input = \<lparr>Domain' = D, Address = A, Statement = S, URI = URI i, Version = Version i,
                      ChainID = ChainID i, Nonce = Nonce i, IssuedAt = IssuedAt i,
                      ExpirationTime = ExpirationTime i,
                      NotBefore = None, RequestID = None, Resources = []\<rparr>,
                  inResources = False, resources = []\<rparr>"
    unfolding s5_def e4 by (subst fold_ExpirationTime [OF o(4)]) simp_all
  have e6: "s6 = \<lparr>input = \<lparr>Domain' = D, Address = A, Statement = S, URI = URI i, Version = Version i,
                      ChainID = ChainID i, Nonce = Nonce i, IssuedAt = IssuedAt i,
                      ExpirationTime = ExpirationTime i,
                      NotBefore = NotBefore i, RequestID = None, Resources = []\<rparr>,
                  inResources = False, resources = []\<rparr>"
    unfolding s6_def e5 by (subst fold_NotBefore [OF o(5)]) simp_all
  have e7: "s7 = \<lparr>input = \<lparr>Domain' = D, Address = A, Statement = S, URI = URI i, Version = Version i,
                      ChainID = ChainID i, Nonce = Nonce i, IssuedAt = IssuedAt i,
                      ExpirationTime = ExpirationTime i,
                      NotBefore = NotBefore i, RequestID = RequestID i, Resources = []\<rparr>,
                  inResources = False, resources = []\<rparr>"
    unfolding s7_def e6 by (subst fold_RequestID [OF o(6)]) simp_all
  have "fold parseLine (fieldLines i) ?s0 = fold parseLine (resourceLines (Resources i)) s7"
    unfolding fieldLines_def fold_append o_apply s7_def s6_def s5_def s4_def s3_def s2_def s1_def ..
  also have "\<dots> = (if Resources i = [] then s7
                     else s7\<lparr>inResources := True, resources := resources s7 @ Resources i\<rparr>)"
    by (rule fold_resourceLines) (simp add: e7)
  finally show ?thesis
    unfolding e7 by simp
qed


lemma take_length_append: "take (length xs) (xs @ ys) = xs"
  by simp

lemma drop_length_append: "drop (length xs) (xs @ ys) = ys"
  by simp

lemma blank_not_field: "\<not> isFieldLine (TrimSpace [])"
  by (simp add: isFieldLine_def HasPrefix_def)

lemma statementBlock_not_fields:
  "statementOK p \<Longrightarrow> \<forall>l\<in>set (statementBlock p @ [[]]). \<not> isFieldLine (TrimSpace l)"
  using blank_not_field by (auto simp: statementBlock_def statementOK_def split: option.splits)

lemma parsed_statement:
  assumes "statementOK p"
  shows "(let statementLines = collectStatement [] (statementBlock p @ [[]])
          in if length statementLines > 0
             then let statement = TrimSpace (Join statementLines)
                  in if statement \<noteq> [] then x\<lparr>Statement := Some statement\<rparr> else x
             else x)
         = (case p of None \<Rightarrow> x | Some s \<Rightarrow> x\<lparr>Statement := Some s\<rparr>)"
proof (cases p)
  case None
  with collect_block [OF assms] show ?thesis by simp
next
  case (Some s)
  with assms have s: "s \<noteq> []" "TrimSpace s = s"
    by (simp_all add: statementOK_def)
  have c: "collectStatement [] (statementBlock p @ [[]]) = Split s @ [[]]"
    using collect_block [OF assms] Some by simp
  have "Join (Split s @ [[]]) = s @ [CHR 0x0A]"
    by (simp only: Join_snoc_blank [OF Split_not_Nil] Join_Split)
  then have "TrimSpace (Join (Split s @ [[]])) = s"
    using statement_newline [OF s(2) s(1)] by simp
  with s(1) Some show ?thesis
    unfolding c by (simp add: Let_def)
qed

text \<open>
  C1 (as amended).  For every parseable input (domain and address non-empty,
  on one line, the address without surrounding space; a statement, when given,
  non-empty, without surrounding space and without a line that opens with a
  field tag; the other optional fields, when given, non-empty; every field
  value and resource on one line), \<open>ParseMessage\<close> succeeds on the message that
  \<open>ConstructMessage\<close> builds and returns the input, field for field.
\<close>

theorem C1_parse_inverts_construct:
  assumes "parseable i"
  shows "ParseMessage (ConstructMessage i) = Inr i"
proof -
  let ?B = "statementBlock (Statement i)"
  let ?F = "fieldLines i"
  let ?lines = "[Domain' i @ headerSuffix, Address i] @ ?B @ [[]] @ ?F"
  have p: "Domain' i \<noteq> []" "oneLine (Domain' i)" "Address i \<noteq> []" "TrimSpace (Address i) = Address i"
    "statementOK (Statement i)"
    using assms by (simp_all add: parseable_def)
  have lines: "Split (ConstructMessage i) = ?lines"
    by (rule Split_ConstructMessage [OF assms])
  obtain y ys where F: "?F = y # ys" and y: "isFieldLine (TrimSpace y)"
    using fieldLines_head [OF assms] by blast
  have len: "\<not> length ?lines < 2" and l0: "?lines ! 0 = Domain' i @ headerSuffix"
    and l1: "?lines ! 1 = Address i" and d2: "drop 2 ?lines = (?B @ [[]]) @ ?F"
    by simp_all
  have fs: "findFieldsStart 2 (drop 2 ?lines) = int (3 + length ?B)"
    unfolding d2 F using findFieldsStart_skip [OF statementBlock_not_fields [OF p(5)] y, of 2 ys]
    by simp
  have n: "nat (int (3 + length ?B)) - 2 = length (?B @ [[]])"
    "nat (int (3 + length ?B)) = length ([Domain' i @ headerSuffix, Address i] @ ?B @ [[]])"
    by simp_all
  have tk: "take (nat (int (3 + length ?B)) - 2) (drop 2 ?lines) = ?B @ [[]]"
    unfolding d2 n(1) by (rule take_length_append)
  have "drop (nat (int (3 + length ?B))) (([Domain' i @ headerSuffix, Address i] @ ?B @ [[]]) @ ?F) = ?F"
    unfolding n(2) by (rule drop_length_append)
  then have dr: "drop (nat (int (3 + length ?B))) ?lines = ?F"
    by simp
  define input0 where "input0 = emptyInput\<lparr>Domain' := Domain' i, Address := Address i\<rparr>"
  have st: "(let statementLines = collectStatement [] (?B @ [[]])
          in if length statementLines > 0
             then let statement = TrimSpace (Join statementLines)
                  in if statement \<noteq> [] then input0\<lparr>Statement := Some statement\<rparr> else input0
             else input0)
         = input0\<lparr>Statement := Statement i\<rparr>"
    unfolding parsed_statement [OF p(5)]
    by (cases "Statement i") (simp_all add: input0_def emptyInput_def)
  have fold: "fold parseLine ?F \<lparr>input = input0\<lparr>Statement := Statement i\<rparr>, inResources = False, resources = []\<rparr>
      = \<lparr>input = i\<lparr>Resources := []\<rparr>, inResources = (Resources i \<noteq> []), resources = Resources i\<rparr>"
    unfolding input0_def fold_fieldLines [OF assms] by simp
  have "ParseMessage (ConstructMessage i) =
      (let st = fold parseLine ?F \<lparr>input = input0\<lparr>Statement := Statement i\<rparr>, inResources = False, resources = []\<rparr>
       in if length (resources st) > 0 then Inr ((input st)\<lparr>Resources := resources st\<rparr>) else Inr (input st))"
    unfolding ParseMessage_def lines
    apply (simp only: Let_def len l0 l1 if_False headerMatch_header [OF p(1,2)] option.case p(3,4) fs tk dr)
    apply (simp only: input0_def [symmetric] st [unfolded Let_def])
    apply simp
    done
  also have "\<dots> = Inr i"
    unfolding fold by (simp add: Let_def)
  finally show ?thesis .
qed

theorem C1_witness:
  "parseable testInput \<and> ParseMessage (ConstructMessage testInput) = Inr testInput"
proof -
  have t: "TrimSpace ''7xKXtg2CW87d97TXJSDpbD5jBkheTqA83TZRuJosgAsU'' = ''7xKXtg2CW87d97TXJSDpbD5jBkheTqA83TZRuJosgAsU''"
    "TrimSpace ''Sign in to test app'' = ''Sign in to test app''"
    by (simp_all add: TrimSpace_def spaceRunes_def)
  have "parseable testInput"
    by (simp add: parseable_def testInput_def statementOK_def optionalLine_def t isFieldLine_def
        HasPrefix_def)
  with C1_parse_inverts_construct [of testInput] show ?thesis
    by simp
qed

text \<open>
  The claim as stated fails: a statement that opens with a field tag is taken
  for the start of the field block, and a statement with a leading space comes
  back trimmed; both inputs have non-empty required fields.
\<close>

theorem C1_counterexample:
  "ParseMessage (ConstructMessage (testInput\<lparr>Statement := Some ''Version: 2 of the terms''\<rparr>))
     = Inr (testInput\<lparr>Statement := None\<rparr>) \<and>
   ParseMessage (ConstructMessage (testInput\<lparr>Statement := Some '' Sign in''\<rparr>))
     = Inr (testInput\<lparr>Statement := Some ''Sign in''\<rparr>)"
  by code_simp

section \<open>Properties of password hashing\<close>

subsection \<open>Splitting at a separator\<close>

lemma SplitOn_nosep: "sep \<notin> set s \<Longrightarrow> SplitOn sep s = [s]"
  by (induction s) auto

lemma SplitOn_append: "sep \<notin> set a \<Longrightarrow> SplitOn sep (a @ sep # rest) = a # SplitOn sep rest"
  by (induction a) auto

subsection \<open>Decimal digits\<close>

lemma of_char_digit: "0 \<le> d \<Longrightarrow> d < 10 \<Longrightarrow> (of_char (digit d) :: int) = 48 + d"
  by (simp add: digit_def)

lemma isDigit_digit: "0 \<le> d \<Longrightarrow> d < 10 \<Longrightarrow> isDigit (digit d)"
  by (simp add: isDigit_def of_char_digit)

lemma ParseUint_snoc: "ParseUint (tok @ [c]) = ParseUint tok * 10 + (of_char c - 48)"
  by (simp add: ParseUint_def)

lemma decimal_digits:
  "0 \<le> n \<Longrightarrow> list_all isDigit (decimal n) \<and> decimal n \<noteq> [] \<and> ParseUint (decimal n) = n"
proof (induction n rule: decimal.induct)
  case (1 n)
  show ?case
  proof (cases "n < 10")
    case True
    have d: "decimal n = [digit n]"
      using True by (subst decimal.simps) simp
    show ?thesis
      unfolding d using True 1(2) by (simp add: isDigit_digit ParseUint_def of_char_digit)
  next
    case False
    have d: "decimal n = decimal (n div 10) @ [digit (n mod 10)]"
      using False by (subst decimal.simps) simp
    have "0 \<le> n div 10"
      using 1(2) by simp
    with 1(1) [OF False] have IH: "list_all isDigit (decimal (n div 10))"
      "ParseUint (decimal (n div 10)) = n div 10"
      by simp_all
    show ?thesis
      unfolding d using IH by (simp add: ParseUint_snoc isDigit_digit of_char_digit)
  qed
qed

subsection \<open>Scanning the parameters\<close>

lemma spaceRunes_heads: "\<forall>r\<in>set spaceRunes. r \<noteq> [] \<and> \<not> isDigit (hd r)"
  by (simp add: spaceRunes_def isDigit_def)

lemma SkipSpace_digit:
  assumes "isDigit c"
  shows "SkipSpace (c # cs) = Inr (c # cs)"
proof -
  have "\<not> prefix r (c # cs)" if "r \<in> set spaceRunes" for r
  proof
    assume p: "prefix r (c # cs)"
    from that spaceRunes_heads have "r \<noteq> []" "\<not> isDigit (hd r)"
      by auto
    with p assms show False
      by (cases r) auto
  qed
  then have "find (\<lambda>r. prefix r (c # cs)) spaceRunes = None"
    by (simp add: find_None_iff)
  moreover have "c \<noteq> CHR 0x0A"
    using assms by (auto simp: isDigit_def)
  ultimately show ?thesis
    by simp
qed

lemma scanUint_decimal:
  assumes n: "0 \<le> n" "n < 2 ^ 32" and rest: "rest = [] \<or> \<not> isDigit (hd rest)"
  shows "scanUint (decimal n @ rest) = Inr (n, rest)"
proof -
  from decimal_digits [OF n(1)] have dig: "list_all isDigit (decimal n)"
    and ne: "decimal n \<noteq> []" and val: "ParseUint (decimal n) = n"
    by simp_all
  from ne obtain c cs where c: "decimal n = c # cs"
    by (cases "decimal n") auto
  with dig have "isDigit c"
    by simp
  then have skip: "SkipSpace (decimal n @ rest) = Inr (decimal n @ rest)"
    unfolding c by (simp only: append_Cons SkipSpace_digit)
  have stop: "takeWhile isDigit rest = []" "dropWhile isDigit rest = rest"
    using rest by (cases rest; simp)+
  have tok: "takeWhile isDigit (decimal n @ rest) = decimal n"
    using dig stop by (simp add: takeWhile_append2 list_all_iff)
  have left: "dropWhile isDigit (decimal n @ rest) = rest"
    using dig stop by (simp add: dropWhile_append2 list_all_iff)
  show ?thesis
    using n ne by (simp add: scanUint_def skip tok left val Let_def uint32_def)
qed

lemma Sscanf_params:
  assumes "0 \<le> m" "m < 2 ^ 32" "0 \<le> t" "t < 2 ^ 32" "0 \<le> p" "p < 2 ^ 32"
  shows "Sscanf (''m='' @ decimal m @ '',t='' @ decimal t @ '',p='' @ decimal p) = Inr (m, t, p)"
proof -
  have 1: "scanUint (decimal m @ '',t='' @ decimal t @ '',p='' @ decimal p)
      = Inr (m, '',t='' @ decimal t @ '',p='' @ decimal p)"
    using assms(1,2) by (rule scanUint_decimal) (simp add: isDigit_def)
  have 2: "scanUint (decimal t @ '',p='' @ decimal p) = Inr (t, '',p='' @ decimal p)"
    using assms(3,4) by (rule scanUint_decimal) (simp add: isDigit_def)
  have 3: "scanUint (decimal p) = Inr (p, [])"
    using scanUint_decimal [OF assms(5,6), of "[]"] by simp
  show ?thesis
    using 1 2 3 by (simp add: Sscanf_def)
qed

subsection \<open>Base64 without padding\<close>

lemma sextet_range: "(v::int) mod 64 \<in> set [0..63]"
  using pos_mod_sign [of 64 v] pos_mod_bound [of 64 v] by simp

lemma decodeMap_encodeChar: "decodeMap (encodeChar v) = Some (v mod 64)"
proof -
  have "list_all (\<lambda>i. decodeMap (encodeChar i) = Some i) [0..63]"
    by code_simp
  with sextet_range [of v] have "decodeMap (encodeChar (v mod 64)) = Some (v mod 64)"
    unfolding list_all_iff by blast
  then show ?thesis
    by (simp add: encodeChar_def)
qed

lemma encodeChar_plain:
  "encodeChar v \<noteq> CHR ''$''" "encodeChar v \<noteq> CHR 0x0A" "encodeChar v \<noteq> CHR 0x0D"
proof -
  have "list_all (\<lambda>i. encodeChar i \<noteq> CHR ''$'' \<and> encodeChar i \<noteq> CHR 0x0A \<and> encodeChar i \<noteq> CHR 0x0D) [0..63]"
    by code_simp
  with sextet_range [of v]
  have "encodeChar (v mod 64) \<noteq> CHR ''$'' \<and> encodeChar (v mod 64) \<noteq> CHR 0x0A \<and>
        encodeChar (v mod 64) \<noteq> CHR 0x0D"
    unfolding list_all_iff by blast
  then show "encodeChar v \<noteq> CHR ''$''" "encodeChar v \<noteq> CHR 0x0A" "encodeChar v \<noteq> CHR 0x0D"
    by (simp_all add: encodeChar_def)
qed

lemma EncodeToString_plain:
  "c \<in> set (EncodeToString bs) \<Longrightarrow> c \<noteq> CHR ''$'' \<and> c \<noteq> CHR 0x0A \<and> c \<noteq> CHR 0x0D"
  by (induction bs rule: EncodeToString.induct) (auto simp: Let_def encodeChar_plain)

lemma byte_range: "0 \<le> (of_char c :: int)" "(of_char c :: int) < 256"
  using pos_mod_sign [of 256 "of_char c :: int"] pos_mod_bound [of 256 "of_char c :: int"]
  by (simp_all add: of_char_mod_256)

lemma sextets:
  "0 \<le> v \<Longrightarrow> v < 16777216 \<Longrightarrow>
     v div 262144 mod 64 * 262144 + v div 4096 mod 64 * 4096 + v div 64 mod 64 * 64 + v mod 64 = (v::int)"
proof -
  assume v: "0 \<le> v" "v < 16777216"
  have a: "v div 262144 = v div 4096 div 64" and b: "v div 4096 = v div 64 div 64"
    by (simp_all add: zdiv_zmult2_eq)
  have "v div 262144 < 64"
    using v by simp
  moreover have "0 \<le> v div 262144"
    using v by simp
  ultimately have c: "v div 262144 mod 64 = v div 262144"
    by simp
  have e1: "v div 4096 div 64 * 64 + v div 4096 mod 64 = v div 4096"
    by (rule div_mult_mod_eq)
  have e2: "v div 64 div 64 * 64 + v div 64 mod 64 = v div 64"
    by (rule div_mult_mod_eq)
  have e3: "v div 64 * 64 + v mod 64 = v"
    by (rule div_mult_mod_eq)
  have "v div 4096 div 64 * 262144 + v div 4096 mod 64 * 4096 + v div 64 mod 64 * 64 + v mod 64 = v"
    using e1 e2 [folded b] e3 by linarith
  moreover have "v div 4096 div 64 mod 64 = v div 4096 div 64"
    using c unfolding a .
  ultimately show ?thesis
    unfolding a by simp
qed

lemma split_quot:
  fixes q n r :: int
  assumes "0 \<le> r" "r < n"
  shows "(q * n + r) div n = q" and "(q * n + r) mod n = r"
  using assms by (simp_all add: div_pos_pos_trivial)

lemma quantum3:
  fixes a b c :: char
  defines "v \<equiv> (of_char a :: int) * 65536 + of_char b * 256 + of_char c"
  shows "v div 262144 mod 64 * 262144 + v div 4096 mod 64 * 4096 + v div 64 mod 64 * 64 + v mod 64 = v"
    and "char_of (v div 65536) = a" and "char_of (v div 256) = b" and "char_of v = c"
proof -
  note r = byte_range [of a] byte_range [of b] byte_range [of c]
  have v: "0 \<le> v" "v < 16777216"
    using r by (simp_all add: v_def)
  show "v div 262144 mod 64 * 262144 + v div 4096 mod 64 * 4096 + v div 64 mod 64 * 64 + v mod 64 = v"
    using v by (rule sextets)
  have v1: "v = of_char a * 65536 + (of_char b * 256 + of_char c)"
    by (simp add: v_def)
  have "v div 65536 = of_char a"
    unfolding v1 using r by (intro split_quot(1)) simp_all
  then show "char_of (v div 65536) = a"
    by simp
  have v2: "v = (of_char a * 256 + of_char b) * 256 + of_char c"
    by (simp add: v_def)
  have "v div 256 = of_char a * 256 + of_char b"
    unfolding v2 using r by (intro split_quot(1)) simp_all
  then have "v div 256 mod 256 = of_char b mod 256"
    by simp
  then show "char_of (v div 256) = b"
    using char_of_quasi_inj [of "v div 256" "of_char b :: int"] by simp
  have "v mod 256 = of_char c"
    unfolding v2 using r by (intro split_quot(2)) simp_all
  then have "v mod 256 = of_char c mod 256"
    by (simp add: of_char_mod_256)
  then show "char_of v = c"
    using char_of_quasi_inj [of v "of_char c :: int"] by simp
qed

lemma low_bits:
  "((A::int) * 65536 + B * 256) mod 64 = 0"
  "((A::int) * 65536) mod 64 = 0"
  "((A::int) * 65536) div 64 mod 64 = 0"
proof -
  have "A * 65536 + B * 256 = (A * 1024 + B * 4) * 64"
    by simp
  then show "(A * 65536 + B * 256) mod 64 = 0"
    by (simp only: mod_mult_self2_is_0)
  have e: "A * 65536 = (A * 1024) * 64"
    by simp
  show "(A * 65536) mod 64 = 0"
    by (simp only: e mod_mult_self2_is_0)
  have "(A * 65536) div 64 = (A * 16) * 64"
    unfolding e by simp
  then show "(A * 65536) div 64 mod 64 = 0"
    by (simp only: mod_mult_self2_is_0)
qed

lemma quantum2:
  fixes a b :: char
  defines "v \<equiv> (of_char a :: int) * 65536 + of_char b * 256"
  shows "char_of ((v div 262144 mod 64 * 262144 + v div 4096 mod 64 * 4096 + v div 64 mod 64 * 64) div 65536) = a"
    and "char_of ((v div 262144 mod 64 * 262144 + v div 4096 mod 64 * 4096 + v div 64 mod 64 * 64) div 256) = b"
proof -
  define w where "w = (of_char a :: int) * 65536 + of_char b * 256 + of_char (CHR 0x00)"
  have wv: "w = v"
    by (simp add: w_def v_def)
  note q = quantum3 [of a b "CHR 0x00", folded w_def, unfolded wv]
  have z: "v mod 64 = 0"
    unfolding v_def by (rule low_bits)
  have e: "v div 262144 mod 64 * 262144 + v div 4096 mod 64 * 4096 + v div 64 mod 64 * 64 = v"
    using q(1) unfolding z by (simp only: add_0_right)
  show "char_of ((v div 262144 mod 64 * 262144 + v div 4096 mod 64 * 4096 + v div 64 mod 64 * 64) div 65536) = a"
    unfolding e by (rule q(2))
  show "char_of ((v div 262144 mod 64 * 262144 + v div 4096 mod 64 * 4096 + v div 64 mod 64 * 64) div 256) = b"
    unfolding e by (rule q(3))
qed

lemma quantum1:
  fixes a :: char
  defines "v \<equiv> (of_char a :: int) * 65536"
  shows "char_of ((v div 262144 mod 64 * 262144 + v div 4096 mod 64 * 4096) div 65536) = a"
proof -
  define w where "w = (of_char a :: int) * 65536 + of_char (CHR 0x00) * 256 + of_char (CHR 0x00)"
  have wv: "w = v"
    by (simp add: w_def v_def)
  note q = quantum3 [of a "CHR 0x00" "CHR 0x00", folded w_def, unfolded wv]
  have z: "v mod 64 = 0" "v div 64 mod 64 = 0"
    unfolding v_def by (rule low_bits)+
  have e: "v div 262144 mod 64 * 262144 + v div 4096 mod 64 * 4096 = v"
    using q(1) unfolding z by (simp only: add_0_right mult_zero_left)
  show ?thesis
    unfolding e by (rule q(2))
qed

lemma decodeQuanta_EncodeToString: "decodeQuanta (EncodeToString bs) = Inr bs"
proof (induction bs rule: EncodeToString.induct)
  case (1 a b c src)
  define v where "v = (of_char a :: int) * 65536 + of_char b * 256 + of_char c"
  note q = quantum3 [of a b c, folded v_def]
  have "EncodeToString (a # b # c # src)
      = encodeChar (v div 262144) # encodeChar (v div 4096) # encodeChar (v div 64) #
        encodeChar v # EncodeToString src"
    by (simp only: EncodeToString.simps Let_def v_def)
  then show ?case
    by (simp only: decodeQuanta.simps decodeMap_encodeChar prod.case option.case Let_def 1
        sum.case q)
next
  case (2 a b)
  define v where "v = (of_char a :: int) * 65536 + of_char b * 256"
  note q = quantum2 [of a b, folded v_def]
  have "EncodeToString [a, b]
      = [encodeChar (v div 262144), encodeChar (v div 4096), encodeChar (v div 64)]"
    by (simp only: EncodeToString.simps Let_def v_def)
  then show ?case
    by (simp only: decodeQuanta.simps decodeMap_encodeChar prod.case option.case Let_def q)
next
  case (3 a)
  define v where "v = (of_char a :: int) * 65536"
  note q = quantum1 [of a, folded v_def]
  have "EncodeToString [a] = [encodeChar (v div 262144), encodeChar (v div 4096)]"
    by (simp only: EncodeToString.simps Let_def v_def)
  then show ?case
    by (simp only: decodeQuanta.simps decodeMap_encodeChar prod.case option.case Let_def q)
next
  case 4
  show ?case
    by simp
qed

lemma DecodeString_EncodeToString: "DecodeString (EncodeToString bs) = Inr bs"
proof -
  have "filter (\<lambda>c. c \<noteq> CHR 0x0A \<and> c \<noteq> CHR 0x0D) (EncodeToString bs) = EncodeToString bs"
    using EncodeToString_plain [of _ bs] by (simp add: filter_id_conv)
  then show ?thesis
    by (simp add: DecodeString_def decodeQuanta_EncodeToString)
qed

subsection \<open>Decoding an encoded hash\<close>

lemma decimal_nosep: "0 \<le> n \<Longrightarrow> CHR ''$'' \<notin> set (decimal n)"
proof
  assume n: "0 \<le> n" and "CHR ''$'' \<in> set (decimal n)"
  with decimal_digits [OF n] have "isDigit (CHR ''$'')"
    by (simp add: list_all_iff)
  then show False
    by (simp add: isDigit_def)
qed

lemma SplitOn_phcEncode:
  assumes "0 \<le> Memory p" "0 \<le> Time p" "0 \<le> Threads p"
  shows "SplitOn (CHR ''$'') (phcEncode p salt sum0) =
     [[], ''argon2id'', ''v=19'',
      ''m='' @ decimal (Memory p) @ '',t='' @ decimal (Time p) @ '',p='' @ decimal (Threads p),
      EncodeToString salt, EncodeToString sum0]"
proof -
  define P where "P = ''m='' @ decimal (Memory p) @ '',t='' @ decimal (Time p) @ '',p='' @ decimal (Threads p)"
  define S where "S = EncodeToString salt"
  define H where "H = EncodeToString sum0"
  have nP: "CHR ''$'' \<notin> set P"
    using assms by (simp add: P_def decimal_nosep)
  have nS: "CHR ''$'' \<notin> set S" and nH: "CHR ''$'' \<notin> set H"
    using EncodeToString_plain [of "CHR ''$''"] by (auto simp: S_def H_def)
  have e: "phcEncode p salt sum0 =
      [] @ CHR ''$'' # (''argon2id'' @ CHR ''$'' # (''v=19'' @ CHR ''$'' # (P @ CHR ''$'' # (S @ CHR ''$'' # H))))"
    by (simp add: phcEncode_def P_def S_def H_def)
  have 5: "SplitOn (CHR ''$'') H = [H]"
    using nH by (rule SplitOn_nosep)
  have 4: "SplitOn (CHR ''$'') (S @ CHR ''$'' # H) = [S, H]"
    using SplitOn_append [OF nS, of H] 5 by simp
  have 3: "SplitOn (CHR ''$'') (P @ CHR ''$'' # (S @ CHR ''$'' # H)) = [P, S, H]"
    using SplitOn_append [OF nP, of "S @ CHR ''$'' # H"] 4 by simp
  have 2: "SplitOn (CHR ''$'') (''v=19'' @ CHR ''$'' # (P @ CHR ''$'' # (S @ CHR ''$'' # H)))
      = [''v=19'', P, S, H]"
    by (subst SplitOn_append) (simp_all add: 3)
  have 1: "SplitOn (CHR ''$'') (''argon2id'' @ CHR ''$'' # (''v=19'' @ CHR ''$'' # (P @ CHR ''$'' # (S @ CHR ''$'' # H))))
      = [''argon2id'', ''v=19'', P, S, H]"
    by (subst SplitOn_append) (simp_all only: 2 set_simps char.inject, simp_all)
  have "SplitOn (CHR ''$'') (phcEncode p salt sum0) = [[], ''argon2id'', ''v=19'', P, S, H]"
    unfolding e by (subst SplitOn_append) (simp_all only: 1 list.set empty_iff not_False_eq_True)
  then show ?thesis
    by (simp only: P_def S_def H_def)
qed

lemma phcDecode_phcEncode:
  assumes "0 \<le> Memory p" "Memory p < 2 ^ 32" "0 \<le> Time p" "Time p < 2 ^ 32"
    "0 \<le> Threads p" "Threads p < 2 ^ 8"
  shows "phcDecode (phcEncode p salt sum0) =
     Inr (\<lparr>Time = Time p, Memory = Memory p, Threads = Threads p,
           SaltLen = uint32 (int (length salt)), KeyLen = uint32 (int (length sum0))\<rparr>,
          salt, sum0)"
proof -
  have "Threads p < 2 ^ 32"
    using assms(6) by simp
  with assms have scan:
    "Sscanf (''m='' @ decimal (Memory p) @ '',t='' @ decimal (Time p) @ '',p='' @ decimal (Threads p))
       = Inr (Memory p, Time p, Threads p)"
    by (intro Sscanf_params)
  have conv: "uint32 (Time p) = Time p" "uint32 (Memory p) = Memory p" "uint8 (Threads p) = Threads p"
    using assms by (simp_all add: uint32_def uint8_def)
  show ?thesis
    unfolding phcDecode_def SplitOn_phcEncode [OF assms(1,3,5)]
    by (simp add: scan DecodeString_EncodeToString conv del: append.simps)
qed

subsection \<open>Hashing, then verifying\<close>

lemma HashArgon2id_eq:
  "HashArgon2id kdf src password =
     (case src of
        Inl err \<Rightarrow> Return ([], Some err)
      | Inr bytes \<Rightarrow>
          Return (phcEncode DefaultParams (map bytes [0 ..< 16])
                    (kdf password (map bytes [0 ..< 16]) 1 65536 1 32), None))"
  by (simp add: HashArgon2id_def Read_def DefaultParams_def IDKey_def Let_def split: sum.splits)

lemma exampleKdf_length: "0 \<le> k \<Longrightarrow> int (length (exampleKdf pw s t m p k)) = k"
  by (simp add: exampleKdf_def)

text \<open>
  C8.  Let the key derivation function return keys of the requested length, the
  contract of \<open>argon2.IDKey\<close>.  Then for every password, when the entropy
  source delivers the salt, \<open>HashArgon2id\<close> returns an encoded hash without
  error, \<open>VerifyArgon2id\<close> of that hash and the same password returns
  \<open>(true, nil)\<close>, and \<open>phcDecode\<close> recovers from the encoded hash the
  parameters, the salt and the derived key that produced it.  The derivation is
  a function of password, salt and parameters.
\<close>

theorem C8_hash_then_verify:
  assumes kdf: "\<And>pw s t m p k. 0 \<le> k \<Longrightarrow> int (length (kdf pw s t m p k)) = k"
  shows "\<exists>encoded salt.
           HashArgon2id kdf (Inr bytes) password = Return (encoded, None) \<and>
           VerifyArgon2id kdf encoded password = Return (True, None) \<and>
           salt = map bytes [0 ..< 16] \<and>
           encoded = phcEncode DefaultParams salt (kdf password salt 1 65536 1 32) \<and>
           phcDecode encoded = Inr (DefaultParams, salt, kdf password salt 1 65536 1 32)"
proof -
  define salt where "salt = map bytes [0 ..< 16]"
  define dk where "dk = kdf password salt 1 65536 1 32"
  define encoded where "encoded = phcEncode DefaultParams salt dk"
  have slen: "length salt = 16"
    by (simp add: salt_def)
  have len: "int (length dk) = 32"
    unfolding dk_def by (rule kdf) simp
  have hash: "HashArgon2id kdf (Inr bytes) password = Return (encoded, None)"
    by (simp add: HashArgon2id_eq encoded_def dk_def salt_def)
  have dec: "phcDecode encoded = Inr (DefaultParams, salt, dk)"
    unfolding encoded_def
    by (subst phcDecode_phcEncode) (simp_all add: DefaultParams_def slen len uint32_def)
  have "VerifyArgon2id kdf encoded password = Return (True, None)"
    by (simp add: VerifyArgon2id_def dec DefaultParams_def IDKey_def len uint32_def
        dk_def [symmetric] ConstantTimeCompare_def)
  with hash dec show ?thesis
    unfolding encoded_def dk_def salt_def by blast
qed

theorem C8_witness:
  "HashArgon2id exampleKdf exampleRand ''pw''
     = Return (''$argon2id$v=19$m=65536,t=1,p=1$c3Nzc3Nzc3Nzc3Nzc3Nzcw$cHdzc3Nzc3Nzc3Nzc3Nzc3Nza2tra2tra2tra2tra2s'', None) \<and>
   VerifyArgon2id exampleKdf
       ''$argon2id$v=19$m=65536,t=1,p=1$c3Nzc3Nzc3Nzc3Nzc3Nzcw$cHdzc3Nzc3Nzc3Nzc3Nzc3Nza2tra2tra2tra2tra2s'' ''pw''
     = Return (True, None)"
proof -
  have h: "HashArgon2id exampleKdf (Inr (\<lambda>i. CHR ''s'')) ''pw''
     = Return (''$argon2id$v=19$m=65536,t=1,p=1$c3Nzc3Nzc3Nzc3Nzc3Nzcw$cHdzc3Nzc3Nzc3Nzc3Nzc3Nza2tra2tra2tra2tra2s'', None)"
    by code_simp
  from C8_hash_then_verify [of exampleKdf "\<lambda>i. CHR ''s''" "''pw''", OF exampleKdf_length] h
  show ?thesis
    unfolding exampleRand_def by auto
qed

text \<open>
  The example hash is not accepted for another password, and a failing entropy
  source makes \<open>HashArgon2id\<close> return the error and no hash.
\<close>

lemma wrong_password_example:
  "VerifyArgon2id exampleKdf
       ''$argon2id$v=19$m=65536,t=1,p=1$c3Nzc3Nzc3Nzc3Nzc3Nzcw$cHdzc3Nzc3Nzc3Nzc3Nzc3Nza2tra2tra2tra2tra2s'' ''pq''
     = Return (False, None)"
  by code_simp

lemma entropy_failure: "HashArgon2id kdf (Inl err) password = Return ([], Some err)"
  by (simp add: HashArgon2id_eq)

end
